theory Spec2Isabelle
  imports Main
begin

unbundle bit_operations_syntax

section \<open>The filesystem walker of the OVAL probes (oval\_fts.c)\<close>

text \<open>
  The walker sits on top of the hierarchical directory walker of the C library
  (\<open>fts_open\<close>, \<open>fts_read\<close>, \<open>fts_set\<close>), the entity comparison of the probe
  API (\<open>probe_entobj_cmp\<close>), PCRE and the device table (\<open>fsdev\<close>). None of them
  is defined in oval\_fts.c: they are the fields of the record \<open>collab\<close> below, and
  every function of the walker takes that record as its first argument.
\<close>

subsection \<open>Driver entries\<close>

text \<open>The \<open>fts_info\<close> tags of fts.h that a traversal can report.\<close>

datatype fts_tag =
  FTS_D | FTS_DC | FTS_DEFAULT | FTS_DNR | FTS_DP | FTS_ERR | FTS_F | FTS_NS | FTS_SL | FTS_SLNONE

text \<open>The two instructions the walker passes to \<open>fts_set\<close>.\<close>

datatype fts_instr = FTS_FOLLOW | FTS_SKIP

type_synonym dev_t = nat

text \<open>
  \<open>FTSENT\<close>: the fields of the driver's entry that the walker reads, and the link
  \<open>fts_parent\<close> of fts.h, which it does not read. \<open>fts_statp\<close> is the \<open>st_dev\<close> of the
  stat buffer, \<open>None\<close> when the pointer is NULL. \<open>fts_parent_dev\<close> is the \<open>st_dev\<close> in
  the stat buffer of the entry \<open>fts_parent\<close> points to, the directory the entry was found
  in; it is \<open>None\<close> for a starting root, whose parent is the driver's own placeholder.
\<close>

record FTSENT =
  fts_path :: string
  fts_pathlen :: nat
  fts_name :: string
  fts_namelen :: nat
  fts_info :: fts_tag
  fts_level :: int
  fts_statp :: "dev_t option"
  fts_parent_dev :: "dev_t option"

subsection \<open>Entities, operations and results\<close>

datatype oval_operation =
    OVAL_OPERATION_UNKNOWN
  | OVAL_OPERATION_EQUALS
  | OVAL_OPERATION_NOT_EQUAL
  | OVAL_OPERATION_CASE_INSENSITIVE_EQUALS
  | OVAL_OPERATION_CASE_INSENSITIVE_NOT_EQUAL
  | OVAL_OPERATION_GREATER_THAN
  | OVAL_OPERATION_LESS_THAN
  | OVAL_OPERATION_GREATER_THAN_OR_EQUAL
  | OVAL_OPERATION_LESS_THAN_OR_EQUAL
  | OVAL_OPERATION_BITWISE_AND
  | OVAL_OPERATION_BITWISE_OR
  | OVAL_OPERATION_PATTERN_MATCH

datatype oval_result =
    OVAL_RESULT_TRUE
  | OVAL_RESULT_FALSE
  | OVAL_RESULT_UNKNOWN
  | OVAL_RESULT_ERROR
  | OVAL_RESULT_NOT_EVALUATED
  | OVAL_RESULT_NOT_APPLICABLE

text \<open>
  What the macro \<open>PROBE_ENT_STRVAL\<close> finds in an entity: no usable string value (its
  first escape expression runs), a string of length zero (its second escape expression
  runs), or the string copied into the destination buffer.
\<close>

datatype strval = STRVAL_INVALID | STRVAL_ZEROLEN | STRVAL string

text \<open>
  An entity (\<open>SEXP_t *\<close>) as far as the walker looks into it: the value of its
  \<open>operation\<close> attribute, if it has one, and its string value.
\<close>

record entity =
  ent_operation :: "oval_operation option"
  ent_strval :: strval

datatype pcre = Pcre string

datatype pcre_extra = PcreExtra string

subsection \<open>Constants of the headers\<close>

text \<open>
  Modelled from the spec: the enumerations of oval\_types.h are not part of the sources at
  hand. Section 3 of the specification lists the members (\<open>none\<close>, \<open>down\<close>, \<open>up\<close>;
  \<open>symlinks_and_dirs\<close>, \<open>files_and_dirs\<close>, \<open>symlinks\<close>, \<open>dirs\<close>; \<open>all\<close>, \<open>local\<close>,
  \<open>defined\<close>); the numbers are those of an enumeration starting at one, the recurse
  values are bit flags. No theorem below depends on more than their being distinct from
  each other and from \<open>-1\<close>.
\<close>

definition OVAL_RECURSE_DIRECTION_NONE :: int where "OVAL_RECURSE_DIRECTION_NONE = 1"
definition OVAL_RECURSE_DIRECTION_DOWN :: int where "OVAL_RECURSE_DIRECTION_DOWN = 2"
definition OVAL_RECURSE_DIRECTION_UP :: int where "OVAL_RECURSE_DIRECTION_UP = 3"

definition OVAL_RECURSE_DIRS :: int where "OVAL_RECURSE_DIRS = 1"
definition OVAL_RECURSE_SYMLINKS :: int where "OVAL_RECURSE_SYMLINKS = 2"
definition OVAL_RECURSE_FILES :: int where "OVAL_RECURSE_FILES = 4"
definition OVAL_RECURSE_SYMLINKS_AND_DIRS :: int where
  "OVAL_RECURSE_SYMLINKS_AND_DIRS = OVAL_RECURSE_SYMLINKS OR OVAL_RECURSE_DIRS"
definition OVAL_RECURSE_FILES_AND_DIRS :: int where
  "OVAL_RECURSE_FILES_AND_DIRS = OVAL_RECURSE_FILES OR OVAL_RECURSE_DIRS"

definition OVAL_RECURSE_FS_LOCAL :: int where "OVAL_RECURSE_FS_LOCAL = 1"
definition OVAL_RECURSE_FS_ALL :: int where "OVAL_RECURSE_FS_ALL = 2"
definition OVAL_RECURSE_FS_DEFINED :: int where "OVAL_RECURSE_FS_DEFINED = 3"

text \<open>The option bits of fts.h and the error codes of pcre.h.\<close>

definition FTS_COMFOLLOW :: int where "FTS_COMFOLLOW = 1"
definition FTS_PHYSICAL :: int where "FTS_PHYSICAL = 16"
definition FTS_XDEV :: int where "FTS_XDEV = 64"

definition PCRE_ERROR_NOMATCH :: int where "PCRE_ERROR_NOMATCH = - 1"
definition PCRE_ERROR_PARTIAL :: int where "PCRE_ERROR_PARTIAL = - 12"
definition PCRE_ERROR_BADPARTIAL :: int where "PCRE_ERROR_BADPARTIAL = - 13"

subsection \<open>The external collaborators\<close>

text \<open>
  \<open>'f\<close> is the driver's handle (\<open>FTS *\<close>); \<open>fts_read\<close> and \<open>fts_set\<close> return the
  handle they leave behind. \<open>pcre_exec\<close> is always called with \<open>PCRE_PARTIAL\<close>, offset
  zero and an offset vector of one slot, on the first \<open>length\<close> bytes of its subject,
  which is the string passed here. \<open>pcre_firstbyte\<close> is the value that
  \<open>pcre_fullinfo (PCRE_INFO_FIRSTBYTE)\<close> leaves in a variable initialised to \<open>-1\<close>.
  \<open>strtol_errno\<close> gives the converted number, a \<open>long\<close>, and whether \<open>errno\<close> is
  \<open>EINVAL\<close> or \<open>ERANGE\<close> after the call. \<open>fsdev_init\<close> is the table of local devices at the time of
  the call, \<open>stat_dev\<close> the device a path name resolves to. \<open>heap_junk\<close> is the content
  of freshly allocated memory, which \<open>OVAL_FTS_new\<close> leaves in the field \<open>recurse\<close>.
\<close>

record 'f collab =
  fts_open :: "string list \<Rightarrow> int \<Rightarrow> 'f option"
  fts_read :: "'f \<Rightarrow> FTSENT option \<times> 'f"
  fts_set :: "'f \<Rightarrow> FTSENT \<Rightarrow> fts_instr \<Rightarrow> 'f"
  probe_entobj_cmp :: "entity option \<Rightarrow> string \<Rightarrow> oval_result"
  pcre_compile :: "string \<Rightarrow> pcre option"
  pcre_study :: "pcre \<Rightarrow> pcre_extra option"
  pcre_firstbyte :: "pcre \<Rightarrow> pcre_extra option \<Rightarrow> int"
  pcre_exec :: "pcre \<Rightarrow> pcre_extra option \<Rightarrow> string \<Rightarrow> int"
  strtol_errno :: "string \<Rightarrow> int \<times> bool"
  fsdev_init :: "dev_t list option"
  stat_dev :: "string \<Rightarrow> dev_t option"
  heap_junk :: int

subsection \<open>The handle and the entry record\<close>

record 'f OVAL_FTS =
  ofts_fts :: 'f
  ofts_st_path :: "string list"
  ofts_st_path_count :: nat
  ofts_st_path_index :: nat
  ofts_spath :: "entity option"
  ofts_sfilename :: "entity option"
  ofts_sfilepath :: "entity option"
  ofts_path_regex :: "pcre option"
  ofts_path_regex_extra :: "pcre_extra option"
  ofts_path_op :: oval_operation
  max_depth :: int
  direction :: int
  recurse :: int
  filesystem :: int
  localdevs :: "dev_t list option"

record OVAL_FTSENT =
  path :: string
  path_len :: int
  "file" :: "string option"
  file_len :: int

subsection \<open>\<open>OVAL_FTS_new\<close>, \<open>pathlen_from_ftse\<close>, \<open>OVAL_FTSENT_new\<close>\<close>

definition OVAL_FTS_new :: "'f collab \<Rightarrow> string list \<Rightarrow> nat \<Rightarrow> int \<Rightarrow> 'f OVAL_FTS option" where
  "OVAL_FTS_new env fts_paths fts_paths_count fts_options =
     (case fts_open env fts_paths fts_options of
        None \<Rightarrow> None
      | Some fts \<Rightarrow> Some \<lparr>
          ofts_fts = fts,
          ofts_st_path = fts_paths,
          ofts_st_path_count = fts_paths_count,
          ofts_st_path_index = 0,
          ofts_spath = None,
          ofts_sfilename = None,
          ofts_sfilepath = None,
          ofts_path_regex = None,
          ofts_path_regex_extra = None,
          ofts_path_op = OVAL_OPERATION_UNKNOWN,
          max_depth = - 1,
          direction = - 1,
          recurse = heap_junk env,
          filesystem = - 1,
          localdevs = None \<rparr>)"

definition pathlen_from_ftse :: "int \<Rightarrow> int \<Rightarrow> int" where
  "pathlen_from_ftse fts_pathlen' fts_namelen' =
     (if fts_pathlen' > fts_namelen' then
        (let pathlen = fts_pathlen' - fts_namelen'
         in if pathlen > 1 then pathlen - 1 else pathlen)
      else fts_pathlen')"

text \<open>
  \<open>strncpy (dst, src, n)\<close> followed by \<open>dst[n] = 0\<close>, and \<open>printf ("%.*s", n, src)\<close>:
  the first \<open>n\<close> bytes of \<open>src\<close>. \<open>pathlen_from_ftse\<close> is only called on the unsigned
  lengths of a driver entry, so \<open>n\<close> is never negative.
\<close>

definition first_bytes :: "int \<Rightarrow> string \<Rightarrow> string" where
  "first_bytes n src = take (nat n) src"

definition OVAL_FTSENT_new :: "'f OVAL_FTS \<Rightarrow> FTSENT \<Rightarrow> OVAL_FTSENT" where
  "OVAL_FTSENT_new ofts fts_ent =
     (if ofts_sfilename ofts \<noteq> None \<or> ofts_sfilepath ofts \<noteq> None then
        (let pl = pathlen_from_ftse (int (fts_pathlen fts_ent)) (int (fts_namelen fts_ent))
         in \<lparr> path = first_bytes pl (fts_path fts_ent),
              path_len = pl,
              file = Some (fts_name fts_ent),
              file_len = int (fts_namelen fts_ent) \<rparr>)
      else
        \<lparr> path = fts_path fts_ent,
          path_len = int (fts_pathlen fts_ent),
          file = None,
          file_len = - 1 \<rparr>)"

subsection \<open>The device table\<close>

text \<open>
  Modelled from the spec: fsdev.c is not part of the sources at hand. Section 4.1:
  \<open>contains_id\<close> is membership of a device id in the set, \<open>contains_path\<close> resolves the
  path to its device id and delegates. The C functions return \<open>1\<close> for a member and
  \<open>0\<close> for any other device; a path that cannot be resolved and a NULL table give the
  error value \<open>-1\<close>. \<open>oval_fts_open\<close> never leaves a NULL table on a handle whose
  \<open>filesystem\<close> is \<open>local\<close>.
\<close>

definition fsdev_search :: "dev_t list option \<Rightarrow> dev_t \<Rightarrow> int" where
  "fsdev_search lfs d =
     (case lfs of None \<Rightarrow> - 1 | Some devs \<Rightarrow> (if d \<in> set devs then 1 else 0))"

definition fsdev_path :: "'f collab \<Rightarrow> dev_t list option \<Rightarrow> string \<Rightarrow> int" where
  "fsdev_path env lfs p =
     (case stat_dev env p of None \<Rightarrow> - 1 | Some d \<Rightarrow> fsdev_search lfs d)"

definition OVAL_FTS_localp :: "'f collab \<Rightarrow> 'f OVAL_FTS \<Rightarrow> string option \<Rightarrow> dev_t option \<Rightarrow> bool" where
  "OVAL_FTS_localp env ofts path' id' =
     (case id' of
        Some d \<Rightarrow> fsdev_search (localdevs ofts) d = 1
      | None \<Rightarrow>
          (case path' of
             Some p \<Rightarrow> fsdev_path env (localdevs ofts) p = 1
           | None \<Rightarrow> False))"

subsection \<open>\<open>oval_fts_read\<close>\<close>

text \<open>
  One turn of the loop of \<open>oval_fts_read\<close> is split at its three blocks. Lines 442 to
  482: the candidate evaluation, which leaves the new entry record in \<open>ofts_ent\<close> or
  leaves it NULL.
\<close>

definition oval_fts_read_match :: "'f collab \<Rightarrow> 'f OVAL_FTS \<Rightarrow> FTSENT \<Rightarrow> OVAL_FTSENT option" where
  "oval_fts_read_match env ofts fts_ent =
     (if fts_info fts_ent = FTS_SL then None
      else if ofts_sfilepath ofts \<noteq> None then
        (if fts_info fts_ent \<noteq> FTS_D then
           (if probe_entobj_cmp env (ofts_sfilepath ofts) (fts_path fts_ent) = OVAL_RESULT_TRUE
            then Some (OVAL_FTSENT_new ofts fts_ent) else None)
         else None)
      else if (ofts_sfilename ofts \<noteq> None \<and> fts_info fts_ent \<noteq> FTS_D)
            \<or> (ofts_sfilename ofts = None \<and> fts_info fts_ent = FTS_D) then
        (let stmp = (if ofts_sfilename ofts = None then fts_path fts_ent
                     else first_bytes
                            (pathlen_from_ftse (int (fts_pathlen fts_ent)) (int (fts_namelen fts_ent)))
                            (fts_path fts_ent));
             match0 = (probe_entobj_cmp env (ofts_spath ofts) stmp = OVAL_RESULT_TRUE);
             match1 = (if ofts_path_op ofts = OVAL_OPERATION_EQUALS then True else match0);
             match2 = (if match1 \<and> ofts_sfilename ofts \<noteq> None then
                         probe_entobj_cmp env (ofts_sfilename ofts) (fts_name fts_ent) = OVAL_RESULT_TRUE
                       else match1)
         in if match2 then Some (OVAL_FTSENT_new ofts fts_ent) else None)
      else None)"

text \<open>
  Lines 542 to 566: the filesystem check of the direction \<open>down\<close>, reached for
  directories and symbolic links only; \<open>fts\<close> is the driver handle at that point.
\<close>

definition oval_fts_read_localfs :: "'f collab \<Rightarrow> 'f OVAL_FTS \<Rightarrow> FTSENT \<Rightarrow> 'f \<Rightarrow> 'f" where
  "oval_fts_read_localfs env ofts fts_ent fts =
     (if filesystem ofts = OVAL_RECURSE_FS_LOCAL then
        (if fts_info fts_ent = FTS_D \<or> fts_info fts_ent = FTS_SL then
           (if \<not> OVAL_FTS_localp env ofts (Some (fts_path fts_ent)) (fts_statp fts_ent)
            then fts_set env fts fts_ent FTS_SKIP
            else fts)
         else fts)
      else fts)"

text \<open>
  Lines 484 to 583: the switch on the direction. The result is the driver handle after
  the calls of \<open>fts_set\<close>; the label \<open>__skip_file\<close> is the call with \<open>FTS_SKIP\<close>.
\<close>

definition oval_fts_read_steer :: "'f collab \<Rightarrow> 'f OVAL_FTS \<Rightarrow> FTSENT \<Rightarrow> 'f" where
  "oval_fts_read_steer env ofts fts_ent =
     (let fts = ofts_fts ofts in
      if direction ofts = OVAL_RECURSE_DIRECTION_NONE then
        (if ofts_path_op ofts \<noteq> OVAL_OPERATION_EQUALS then fts
         else if ofts_sfilename ofts = None \<and> ofts_sfilepath ofts = None then
           fts_set env fts fts_ent FTS_SKIP
         else if fts_level fts_ent > 0 then fts_set env fts fts_ent FTS_SKIP
         else fts)
      else if direction ofts = OVAL_RECURSE_DIRECTION_DOWN then
        (if fts_level fts_ent = 0 \<and> ofts_sfilename ofts \<noteq> None then fts
         else if fts_level fts_ent \<le> max_depth ofts \<or> max_depth ofts = - 1 then
           (case fts_info fts_ent of
              FTS_D \<Rightarrow>
                if recurse ofts AND OVAL_RECURSE_DIRS = 0 then fts_set env fts fts_ent FTS_SKIP
                else oval_fts_read_localfs env ofts fts_ent fts
            | FTS_SL \<Rightarrow>
                if recurse ofts AND OVAL_RECURSE_SYMLINKS = 0 then fts_set env fts fts_ent FTS_SKIP
                else oval_fts_read_localfs env ofts fts_ent (fts_set env fts fts_ent FTS_FOLLOW)
            | _ \<Rightarrow> fts)
         else fts_set env fts fts_ent FTS_SKIP)
      else if direction ofts = OVAL_RECURSE_DIRECTION_UP then fts_set env fts fts_ent FTS_SKIP
      else fts)"

text \<open>
  What one turn of the loop does with the entry the driver returned: go round again
  (\<open>continue\<close>, or the end of the body with \<open>ofts_ent\<close> still NULL), leave the loop with
  an entry record, or return NULL at once. Each carries the driver handle.
\<close>

datatype 'f turn = Continue 'f | Emit OVAL_FTSENT 'f | Abort 'f

fun turn_fts :: "'f turn \<Rightarrow> 'f" where
  "turn_fts (Continue fts) = fts"
| "turn_fts (Emit ofts_ent fts) = fts"
| "turn_fts (Abort fts) = fts"

definition oval_fts_read_body :: "'f collab \<Rightarrow> 'f OVAL_FTS \<Rightarrow> FTSENT \<Rightarrow> 'f turn" where
  "oval_fts_read_body env ofts fts_ent =
     (let fts = ofts_fts ofts;
          rest = (case oval_fts_read_match env ofts fts_ent of
                    None \<Rightarrow> Continue (oval_fts_read_steer env ofts fts_ent)
                  | Some ofts_ent \<Rightarrow> Emit ofts_ent (oval_fts_read_steer env ofts fts_ent))
      in
      if fts_info fts_ent = FTS_DP \<or> fts_info fts_ent = FTS_DC then Continue fts
      else
        (case (if fts_info fts_ent = FTS_D \<or> fts_info fts_ent = FTS_SL
               then ofts_path_regex ofts else None) of
           None \<Rightarrow> rest
         | Some regex \<Rightarrow>
             (let pathlen = (if ofts_sfilename ofts = None then int (fts_pathlen fts_ent)
                             else pathlen_from_ftse (int (fts_pathlen fts_ent))
                                                    (int (fts_namelen fts_ent)));
                  ret = pcre_exec env regex (ofts_path_regex_extra ofts)
                          (first_bytes pathlen (fts_path fts_ent))
              in
              if ret < 0 then
                (if ret = PCRE_ERROR_NOMATCH then Continue (fts_set env fts fts_ent FTS_SKIP)
                 else if ret = PCRE_ERROR_PARTIAL then
                   Continue (if fts_info fts_ent = FTS_SL
                             then fts_set env fts fts_ent FTS_FOLLOW else fts)
                 else Abort fts)
              else rest)))"

text \<open>
  The loop \<open>for (;;)\<close>. It ends when the driver is exhausted, when the regex engine
  reports an error, or with an entry record; the driver decides whether that ever
  happens, so the loop carries fuel, one unit for each call of \<open>fts_read\<close>, and \<open>None\<close>
  is a loop that has not ended yet. At the exit the locals \<open>fts_ent\<close> and \<open>ofts_ent\<close>
  hold the driver's entry and the record made from it: the loop returns both, the
  function \<open>oval_fts_read\<close> the record alone.
\<close>

fun oval_fts_read_loop ::
  "'f collab \<Rightarrow> nat \<Rightarrow> 'f OVAL_FTS \<Rightarrow> ((FTSENT \<times> OVAL_FTSENT) option \<times> 'f OVAL_FTS) option" where
  "oval_fts_read_loop env 0 ofts = None"
| "oval_fts_read_loop env (Suc n) ofts =
     (case fts_read env (ofts_fts ofts) of
        (None, fts) \<Rightarrow> Some (None, ofts\<lparr>ofts_fts := fts\<rparr>)
      | (Some fts_ent, fts) \<Rightarrow>
          (case oval_fts_read_body env (ofts\<lparr>ofts_fts := fts\<rparr>) fts_ent of
             Continue fts' \<Rightarrow> oval_fts_read_loop env n (ofts\<lparr>ofts_fts := fts'\<rparr>)
           | Emit ofts_ent fts' \<Rightarrow> Some (Some (fts_ent, ofts_ent), ofts\<lparr>ofts_fts := fts'\<rparr>)
           | Abort fts' \<Rightarrow> Some (None, ofts\<lparr>ofts_fts := fts'\<rparr>)))"

definition oval_fts_read ::
  "'f collab \<Rightarrow> nat \<Rightarrow> 'f OVAL_FTS option \<Rightarrow> (OVAL_FTSENT option \<times> 'f OVAL_FTS option) option" where
  "oval_fts_read env n h =
     (case h of
        None \<Rightarrow> Some (None, None)
      | Some ofts \<Rightarrow>
          (case oval_fts_read_loop env n ofts of
             None \<Rightarrow> None
           | Some (r, ofts') \<Rightarrow> Some (map_option snd r, Some ofts')))"

subsection \<open>\<open>oval_fts_open\<close>\<close>

text \<open>
  The behaviors entity as \<open>PROBE_ENT_AREF\<close> and \<open>SEXP_string_cstr_r\<close> see it: a map
  from attribute names to their string values. The pointer itself is not NULL
  (\<open>assume_d\<close>).
\<close>

type_synonym behaviors = "string \<rightharpoonup> string"

text \<open>The three chains of \<open>strcmp\<close>; \<open>None\<close> is the branch that logs and returns NULL.\<close>

definition recurse_direction_of :: "string \<Rightarrow> int option" where
  "recurse_direction_of cstr_buff =
     (if cstr_buff = ''none'' then Some OVAL_RECURSE_DIRECTION_NONE
      else if cstr_buff = ''down'' then Some OVAL_RECURSE_DIRECTION_DOWN
      else if cstr_buff = ''up'' then Some OVAL_RECURSE_DIRECTION_UP
      else None)"

definition recurse_of :: "string \<Rightarrow> int option" where
  "recurse_of cstr_buff =
     (if cstr_buff = ''symlinks and directories'' then Some OVAL_RECURSE_SYMLINKS_AND_DIRS
      else if cstr_buff = ''files and directories'' then Some OVAL_RECURSE_FILES_AND_DIRS
      else if cstr_buff = ''symlinks'' then Some OVAL_RECURSE_SYMLINKS
      else if cstr_buff = ''directories'' then Some OVAL_RECURSE_DIRS
      else None)"

text \<open>The filesystem value together with the driver options after the branch.\<close>

definition recurse_file_system_of :: "string \<Rightarrow> int \<Rightarrow> (int \<times> int) option" where
  "recurse_file_system_of cstr_buff fts_options =
     (if cstr_buff = ''local'' then Some (OVAL_RECURSE_FS_LOCAL, fts_options)
      else if cstr_buff = ''all'' then Some (OVAL_RECURSE_FS_ALL, fts_options)
      else if cstr_buff = ''defined'' then Some (OVAL_RECURSE_FS_DEFINED, fts_options OR FTS_XDEV)
      else None)"

text \<open>
  Line 212 assigns the \<open>long\<close> that \<open>strtol\<close> returns to the \<open>int\<close> \<open>max_depth\<close>: the
  value is reduced to 32 bits, two's complement.
\<close>

definition long_to_int :: "int \<Rightarrow> int" where
  "long_to_int v = (v + 2147483648) mod 4294967296 - 2147483648"

text \<open>The locals of \<open>oval_fts_open\<close> when it reaches line 298.\<close>

record open_locals =
  l_cstr_path :: string
  l_nilfilename :: bool
  l_max_depth :: int
  l_direction :: int
  l_recurse :: int
  l_filesystem :: int
  l_fts_options :: int

text \<open>
  Lines 209 to 293, the four attributes of the behaviors. Every attribute value \<open>r0\<close>
  obtained in this block is passed to \<open>SEXP_free\<close> before the block is left, also on
  the returns with NULL. \<open>None\<close> is such a return.
\<close>

definition oval_fts_open_behaviors ::
  "'f collab \<Rightarrow> behaviors \<Rightarrow> open_locals \<Rightarrow> open_locals option" where
  "oval_fts_open_behaviors env bh l =
     (case bh ''max_depth'' of
        None \<Rightarrow> None
      | Some md_buff \<Rightarrow>
          (if snd (strtol_errno env md_buff) then None
           else
             (case bh ''recurse_direction'' of
                None \<Rightarrow> None
              | Some dir_buff \<Rightarrow>
                  (case recurse_direction_of dir_buff of
                     None \<Rightarrow> None
                   | Some dir \<Rightarrow>
                       (case (case bh ''recurse'' of
                                None \<Rightarrow> Some OVAL_RECURSE_SYMLINKS_AND_DIRS
                              | Some rec_buff \<Rightarrow> recurse_of rec_buff) of
                          None \<Rightarrow> None
                        | Some rec \<Rightarrow>
                            (case (case bh ''recurse_file_system'' of
                                     None \<Rightarrow> Some (OVAL_RECURSE_FS_ALL, l_fts_options l)
                                   | Some fs_buff \<Rightarrow>
                                       recurse_file_system_of fs_buff (l_fts_options l)) of
                               None \<Rightarrow> None
                             | Some (fs, opts) \<Rightarrow>
                                 Some (l\<lparr> l_max_depth := long_to_int (fst (strtol_errno env md_buff)),
                                          l_direction := dir,
                                          l_recurse := rec,
                                          l_filesystem := fs,
                                          l_fts_options := opts \<rparr>)))))))"

text \<open>
  Lines 184 to 296. \<open>probe_ent_getval\<close> of a NULL entity gives no value, so a NULL
  \<open>filename\<close> next to a \<open>path\<close> takes the first escape of \<open>PROBE_ENT_STRVAL\<close>.
\<close>

definition ent_strval_of :: "entity option \<Rightarrow> strval" where
  "ent_strval_of e = (case e of None \<Rightarrow> STRVAL_INVALID | Some x \<Rightarrow> ent_strval x)"

definition oval_fts_open_locals ::
  "'f collab \<Rightarrow> entity option \<Rightarrow> entity option \<Rightarrow> entity option \<Rightarrow> behaviors
     \<Rightarrow> open_locals option" where
  "oval_fts_open_locals env path' filename' filepath' bh =
     (let l0 = \<lparr> l_cstr_path = [], l_nilfilename = False,
                 l_max_depth = - 1, l_direction = - 1, l_recurse = - 1, l_filesystem = - 1,
                 l_fts_options = FTS_PHYSICAL OR FTS_COMFOLLOW \<rparr>
      in
      if path' \<noteq> None then
        (case ent_strval_of path' of
           STRVAL cstr_path \<Rightarrow>
             (case ent_strval_of filename' of
                STRVAL_INVALID \<Rightarrow> None
              | STRVAL_ZEROLEN \<Rightarrow>
                  oval_fts_open_behaviors env bh
                    (l0\<lparr> l_cstr_path := cstr_path, l_nilfilename := True \<rparr>)
              | STRVAL cstr_file \<Rightarrow>
                  oval_fts_open_behaviors env bh (l0\<lparr> l_cstr_path := cstr_path \<rparr>))
         | _ \<Rightarrow> None)
      else
        (case ent_strval_of filepath' of
           STRVAL cstr_path \<Rightarrow> Some (l0\<lparr> l_cstr_path := cstr_path \<rparr>)
         | _ \<Rightarrow> None))"

text \<open>
  The resources the function acquires and has to hand on or give back: the array of
  starting paths and its one string, the handle, the driver, the compiled regex and its
  study data, the device table, and the references taken on the entities.
\<close>

datatype resource =
    RES_paths | RES_paths0 | RES_ofts | RES_fts | RES_regex | RES_regex_extra
  | RES_localdevs | RES_spath | RES_sfilename | RES_sfilepath

text \<open>
  How a call ends: with a handle, with NULL, or in the dereference of a NULL handle
  (line 307, after \<open>OVAL_FTS_new\<close> has returned NULL). Each carries the resources that
  are allocated and not released at that point.
\<close>

datatype 'f opened =
    Opened "'f OVAL_FTS" "resource list"
  | Failed "resource list"
  | Crashed "resource list"

text \<open>
  Lines 313 to 353, entered when the operation is a pattern match. \<open>None\<close> is the
  return with NULL after \<open>pcre_compile\<close> has failed.
\<close>

definition oval_fts_open_regex ::
  "'f collab \<Rightarrow> string \<Rightarrow> 'f OVAL_FTS \<Rightarrow> resource list \<Rightarrow> ('f OVAL_FTS \<times> resource list) option" where
  "oval_fts_open_regex env cstr_path ofts live =
     (case pcre_compile env cstr_path of
        None \<Rightarrow> None
      | Some regex \<Rightarrow>
          (let extra = pcre_study env regex;
               live' = (if extra \<noteq> None then [RES_regex_extra] else []) @ RES_regex # live;
               firstbyte = pcre_firstbyte env regex extra;
               ret = pcre_exec env regex extra ''/f0o/bar/baz''
           in
           if (firstbyte \<noteq> 47 \<and> firstbyte \<noteq> - 2) \<or> ret = PCRE_ERROR_BADPARTIAL then
             Some (ofts\<lparr> ofts_path_regex := None, ofts_path_regex_extra := None \<rparr>,
                   removeAll RES_regex_extra (removeAll RES_regex live'))
           else
             Some (ofts\<lparr> ofts_path_regex := Some regex, ofts_path_regex_extra := extra \<rparr>,
                   live')))"

text \<open>
  Lines 355 to 374: the device table, the references on the entities and the behavior
  fields, on the handle \<open>ofts\<close> built so far.
\<close>

definition oval_fts_open_finish ::
  "'f collab \<Rightarrow> entity option \<Rightarrow> entity option \<Rightarrow> entity option \<Rightarrow> open_locals
     \<Rightarrow> 'f OVAL_FTS \<Rightarrow> resource list \<Rightarrow> 'f opened" where
  "oval_fts_open_finish env path' filename' filepath' l ofts live =
     (if path' \<noteq> None then
        (case (if l_filesystem l = OVAL_RECURSE_FS_LOCAL then
                 (case fsdev_init env of
                    None \<Rightarrow> None
                  | Some devs \<Rightarrow> Some (ofts\<lparr> localdevs := Some devs \<rparr>, RES_localdevs # live))
               else Some (ofts, live)) of
           None \<Rightarrow> Failed live
         | Some (ofts', live') \<Rightarrow>
             Opened
               (ofts'\<lparr> ofts_spath := path',
                       ofts_sfilename :=
                         (if \<not> l_nilfilename l then filename' else ofts_sfilename ofts'),
                       max_depth := l_max_depth l,
                       direction := l_direction l,
                       recurse := l_recurse l,
                       filesystem := l_filesystem l \<rparr>)
               ((if \<not> l_nilfilename l then [RES_sfilename] else []) @ RES_spath # live'))
      else
        Opened (ofts\<lparr> ofts_sfilepath := filepath' \<rparr>) (RES_sfilepath # live))"

text \<open>Lines 298 to 376.\<close>

definition oval_fts_open_handle ::
  "'f collab \<Rightarrow> entity option \<Rightarrow> entity option \<Rightarrow> entity option \<Rightarrow> oval_operation
     \<Rightarrow> open_locals \<Rightarrow> 'f opened" where
  "oval_fts_open_handle env path' filename' filepath' path_op l =
     (let paths = [if path_op = OVAL_OPERATION_EQUALS then l_cstr_path l else ''/''];
          live0 = [RES_paths0, RES_paths]
      in
      case OVAL_FTS_new env paths 1 (l_fts_options l) of
        None \<Rightarrow> Crashed live0
      | Some ofts0 \<Rightarrow>
          (let live1 = RES_fts # RES_ofts # live0;
               ofts1 = ofts0\<lparr> ofts_st_path := paths, ofts_st_path_count := 1,
                              ofts_st_path_index := 0, ofts_path_op := path_op \<rparr>
           in
           case (if path_op = OVAL_OPERATION_PATTERN_MATCH
                 then oval_fts_open_regex env (l_cstr_path l) ofts1 live1
                 else Some (ofts1, live1)) of
             None \<Rightarrow> Failed live1
           | Some (ofts2, live2) \<Rightarrow>
               oval_fts_open_finish env path' filename' filepath' l ofts2 live2))"

text \<open>
  Lines 184 to 194: the operation is the \<open>operation\<close> attribute of \<open>path\<close>, or of
  \<open>filepath\<close> when there is no \<open>path\<close>, and \<open>EQUALS\<close> without the attribute.
\<close>

definition oval_fts_open_path_op :: "entity option \<Rightarrow> entity option \<Rightarrow> oval_operation" where
  "oval_fts_open_path_op path' filepath' =
     (case (case (if path' \<noteq> None then path' else filepath') of
              None \<Rightarrow> None
            | Some e \<Rightarrow> ent_operation e) of
        Some r0 \<Rightarrow> r0
      | None \<Rightarrow> OVAL_OPERATION_EQUALS)"

text \<open>
  The function. The two \<open>assume_d\<close> return NULL when the combination of arguments is
  not one of the two the function accepts.
\<close>

definition oval_fts_open ::
  "'f collab \<Rightarrow> entity option \<Rightarrow> entity option \<Rightarrow> entity option \<Rightarrow> behaviors \<Rightarrow> 'f opened" where
  "oval_fts_open env path' filename' filepath' bh =
     (if \<not> ((path' = None \<and> filename' = None \<and> filepath' \<noteq> None)
             \<or> (path' \<noteq> None \<and> filepath' = None)) then Failed []
      else
        (case oval_fts_open_locals env path' filename' filepath' bh of
           None \<Rightarrow> Failed []
         | Some l \<Rightarrow>
             oval_fts_open_handle env path' filename' filepath'
               (oval_fts_open_path_op path' filepath') l))"

text \<open>The handle the caller holds after the call: NULL unless the call ended with one.\<close>

fun opened_handle :: "'f opened \<Rightarrow> 'f OVAL_FTS option" where
  "opened_handle (Opened ofts live) = Some ofts"
| "opened_handle (Failed live) = None"
| "opened_handle (Crashed live) = None"

subsection \<open>The loop of the caller\<close>

text \<open>
  Modelled from the spec: the probes that call the walker are not part of the sources at
  hand. Section 4.4.2: each call of read produces the next entry or the end of the
  stream; the caller reads until it gets NULL. The walk is the list of what the
  successive calls return, with the driver's entry beside each record.
\<close>

fun oval_fts_walk ::
  "'f collab \<Rightarrow> nat \<Rightarrow> 'f OVAL_FTS \<Rightarrow> (FTSENT \<times> OVAL_FTSENT) list option" where
  "oval_fts_walk env 0 ofts = None"
| "oval_fts_walk env (Suc n) ofts =
     (case oval_fts_read_loop env (Suc n) ofts of
        None \<Rightarrow> None
      | Some (None, ofts') \<Rightarrow> Some []
      | Some (Some r, ofts') \<Rightarrow> map_option ((#) r) (oval_fts_walk env n ofts'))"

text \<open>A whole use of the walker: open, then read to the end.\<close>

definition oval_fts_session ::
  "'f collab \<Rightarrow> entity option \<Rightarrow> entity option \<Rightarrow> entity option \<Rightarrow> behaviors \<Rightarrow> nat
     \<Rightarrow> (FTSENT \<times> OVAL_FTSENT) list option" where
  "oval_fts_session env path' filename' filepath' bh n =
     (case oval_fts_open env path' filename' filepath' bh of
        Opened ofts live \<Rightarrow> oval_fts_walk env n ofts
      | _ \<Rightarrow> None)"

section \<open>A traversal driver over a finite tree\<close>

text \<open>
  Modelled from the spec: the driver is the \<open>fts\<close> of the C library and lies outside
  the repository. Section 4.3: a stateful cursor over a forest that yields one entry
  for each step, tagged \<open>D\<close> before a directory's content and \<open>DP\<close> after it, \<open>F\<close>,
  \<open>SL\<close> for a symbolic link that was not followed and \<open>SLNONE\<close> for a dangling one;
  \<open>Skip\<close> on the current entry keeps the driver from descending, \<open>Follow\<close> makes it
  return a symbolic link once more as what the link resolves to. Traversal is physical,
  starting roots that are symbolic links are followed, and with \<open>xdev\<close> no directory on
  another device than the root's is entered. A finite tree has no cycles and the model
  has no unreadable directories, so the tags \<open>DC\<close>, \<open>DNR\<close> and \<open>ERR\<close> do not
  occur; a root that does not exist is tagged \<open>NS\<close>. The theorems on single entries
  below hold for every driver; this one serves where a statement is about a whole
  traversal, and in the examples.
\<close>

datatype fs_node =
    FsFile dev_t
  | FsDir dev_t "(string \<times> fs_node) list"
  | FsLink dev_t "fs_node option"

fun node_dev :: "fs_node \<Rightarrow> dev_t" where
  "node_dev (FsFile d) = d"
| "node_dev (FsDir d cs) = d"
| "node_dev (FsLink d t) = d"

fun lstat_info :: "fs_node \<Rightarrow> fts_tag" where
  "lstat_info (FsFile d) = FTS_F"
| "lstat_info (FsDir d cs) = FTS_D"
| "lstat_info (FsLink d t) = FTS_SL"

fun fs_resolve :: "fs_node \<Rightarrow> fs_node option" where
  "fs_resolve (FsLink d None) = None"
| "fs_resolve (FsLink d (Some t)) = fs_resolve t"
| "fs_resolve n = Some n"

text \<open>The node an entry stands for after \<open>stat\<close>, and its tag: a link that resolves
  to nothing stays a link and is tagged \<open>SLNONE\<close>.\<close>

definition stat_node :: "fs_node \<Rightarrow> fs_node" where
  "stat_node n = (case fs_resolve n of None \<Rightarrow> n | Some t \<Rightarrow> t)"

definition stat_info :: "fs_node \<Rightarrow> fts_tag" where
  "stat_info n = (case fs_resolve n of None \<Rightarrow> FTS_SLNONE | Some t \<Rightarrow> lstat_info t)"

text \<open>The path of a child: the parent's path without a trailing slash, a slash, the name.\<close>

definition nappend :: "string \<Rightarrow> string" where
  "nappend p = (if p \<noteq> [] \<and> last p = CHR ''/'' then butlast p else p)"

definition child_ent :: "FTSENT \<Rightarrow> string \<times> fs_node \<Rightarrow> FTSENT" where
  "child_ent parent c =
     \<lparr> fts_path = nappend (fts_path parent) @ ''/'' @ fst c,
       fts_pathlen = length (nappend (fts_path parent) @ ''/'' @ fst c),
       fts_name = fst c,
       fts_namelen = length (fst c),
       fts_info = lstat_info (snd c),
       fts_level = fts_level parent + 1,
       fts_statp = Some (node_dev (snd c)),
       fts_parent_dev = fts_statp parent \<rparr>"

text \<open>The name of a root: what follows its last slash, unless the root is \<open>/\<close> or has
  no slash.\<close>

fun after_last_slash :: "string \<Rightarrow> string \<Rightarrow> string" where
  "after_last_slash acc [] = acc"
| "after_last_slash acc (c # cs) =
     (if c = CHR ''/'' then after_last_slash cs cs else after_last_slash acc cs)"

definition root_name :: "string \<Rightarrow> string" where
  "root_name p = (if p = ''/'' then p else after_last_slash p p)"

definition root_ent :: "(string \<Rightarrow> fs_node option) \<Rightarrow> string \<Rightarrow> FTSENT" where
  "root_ent fs p =
     \<lparr> fts_path = p,
       fts_pathlen = length p,
       fts_name = root_name p,
       fts_namelen = length (root_name p),
       fts_info = (case fs p of None \<Rightarrow> FTS_NS | Some n \<Rightarrow> stat_info n),
       fts_level = 0,
       fts_statp = (case fs p of None \<Rightarrow> None | Some n \<Rightarrow> Some (node_dev (stat_node n))),
       fts_parent_dev = None \<rparr>"

text \<open>
  The driver's state: the entry returned last with the node it stands for, the
  instruction set on it, the visits still to make (an entry to return before its
  content, or a directory to return once more after it), and the \<open>xdev\<close> option with
  the device of the root.
\<close>

datatype tree_item = Pre FTSENT fs_node | Post FTSENT

record tree_fts =
  t_cur :: "(FTSENT \<times> fs_node) option"
  t_instr :: "fts_instr option"
  t_todo :: "tree_item list"
  t_xdev :: bool
  t_dev :: "dev_t option"

text \<open>The node a root stands for: starting roots are followed. A root that does not exist
  stands for nothing that has content.\<close>

definition root_node :: "(string \<Rightarrow> fs_node option) \<Rightarrow> string \<Rightarrow> fs_node" where
  "root_node fs p = (case fs p of None \<Rightarrow> FsLink 0 None | Some n \<Rightarrow> stat_node n)"

definition tree_fts_open :: "(string \<Rightarrow> fs_node option) \<Rightarrow> string list \<Rightarrow> int \<Rightarrow> tree_fts option" where
  "tree_fts_open fs paths fts_options =
     (if [] \<in> set paths then None
      else Some \<lparr>
        t_cur = None,
        t_instr = None,
        t_todo = map (\<lambda>p. Pre (root_ent fs p) (root_node fs p)) paths,
        t_xdev = (fts_options AND FTS_XDEV \<noteq> 0),
        t_dev = None \<rparr>)"

definition tree_fts_set :: "tree_fts \<Rightarrow> FTSENT \<Rightarrow> fts_instr \<Rightarrow> tree_fts" where
  "tree_fts_set s e i =
     (case t_cur s of
        None \<Rightarrow> s
      | Some (cur, n) \<Rightarrow> (if cur = e then s\<lparr> t_instr := Some i \<rparr> else s))"

text \<open>The next pending visit.\<close>

definition tree_fts_next :: "tree_fts \<Rightarrow> tree_item list \<Rightarrow> FTSENT option \<times> tree_fts" where
  "tree_fts_next s items =
     (case items of
        [] \<Rightarrow> (None, s\<lparr> t_cur := None, t_instr := None, t_todo := [] \<rparr>)
      | Pre e n # rest \<Rightarrow>
          (Some e, s\<lparr> t_cur := Some (e, n), t_instr := None, t_todo := rest,
                       t_dev := (if fts_level e = 0 then fts_statp e else t_dev s) \<rparr>)
      | Post e # rest \<Rightarrow>
          (Some (e\<lparr> fts_info := FTS_DP \<rparr>),
           s\<lparr> t_cur := Some (e\<lparr> fts_info := FTS_DP \<rparr>, FsFile 0), t_instr := None,
              t_todo := rest \<rparr>))"

fun dir_entries :: "fs_node \<Rightarrow> (string \<times> fs_node) list" where
  "dir_entries (FsDir d cs) = cs"
| "dir_entries n = []"

definition tree_fts_read :: "tree_fts \<Rightarrow> FTSENT option \<times> tree_fts" where
  "tree_fts_read s =
     (case t_cur s of
        None \<Rightarrow> tree_fts_next s (t_todo s)
      | Some (e, n) \<Rightarrow>
          (if t_instr s = Some FTS_FOLLOW \<and> (fts_info e = FTS_SL \<or> fts_info e = FTS_SLNONE) then
             (let e' = e\<lparr> fts_info := stat_info n, fts_statp := Some (node_dev (stat_node n)) \<rparr>
              in (Some e', s\<lparr> t_cur := Some (e', stat_node n), t_instr := None \<rparr>))
           else if fts_info e = FTS_D then
             (if t_instr s = Some FTS_SKIP \<or> (t_xdev s \<and> fts_statp e \<noteq> t_dev s) then
                (Some (e\<lparr> fts_info := FTS_DP \<rparr>),
                 s\<lparr> t_cur := Some (e\<lparr> fts_info := FTS_DP \<rparr>, FsFile 0), t_instr := None \<rparr>)
              else
                tree_fts_next s
                  (map (\<lambda>c. Pre (child_ent e c) (snd c)) (dir_entries n) @ Post e # t_todo s))
           else tree_fts_next s (t_todo s)))"

section \<open>Concrete collaborators for the examples\<close>

text \<open>
  PCRE lies outside the repository. The engine of the examples follows its documentation
  (pcreapi, pcrepartial) on a fragment of the pattern syntax: an optional \<open>^\<close> at the
  start, then literal characters and character classes \<open>[...]\<close>. A pattern with a
  parenthesis or an unfinished class does not compile.
\<close>

datatype re_atom = Lit char | Cls "char list"

fun re_parse :: "char list option \<Rightarrow> re_atom list \<Rightarrow> string \<Rightarrow> re_atom list option" where
  "re_parse None acc [] = Some (rev acc)"
| "re_parse (Some cl) acc [] = None"
| "re_parse None acc (c # cs) =
     (if c = CHR ''['' then re_parse (Some []) acc cs
      else if c = CHR ''('' \<or> c = CHR '')'' \<or> c = CHR '']'' then None
      else re_parse None (Lit c # acc) cs)"
| "re_parse (Some cl) acc (c # cs) =
     (if c = CHR '']'' then re_parse None (Cls (rev cl) # acc) cs
      else re_parse (Some (c # cl)) acc cs)"

definition re_anchored :: "string \<Rightarrow> bool" where
  "re_anchored p = (p \<noteq> [] \<and> hd p = CHR ''^'')"

definition re_atoms :: "string \<Rightarrow> re_atom list option" where
  "re_atoms p = re_parse None [] (if re_anchored p then tl p else p)"

fun re_atom_ok :: "re_atom \<Rightarrow> char \<Rightarrow> bool" where
  "re_atom_ok (Lit x) c = (x = c)"
| "re_atom_ok (Cls xs) c = (c \<in> set xs)"

text \<open>
  A match attempt at the start of \<open>subject\<close>: \<open>0\<close> for a match, \<open>PCRE_ERROR_PARTIAL\<close>
  when the subject ends before the pattern does and at least one character of it has
  been inspected (\<open>seen\<close>), \<open>PCRE_ERROR_NOMATCH\<close> otherwise.
\<close>

fun re_here :: "re_atom list \<Rightarrow> string \<Rightarrow> bool \<Rightarrow> int" where
  "re_here [] subject seen = 0"
| "re_here (a # as) [] seen = (if seen then PCRE_ERROR_PARTIAL else PCRE_ERROR_NOMATCH)"
| "re_here (a # as) (c # cs) seen =
     (if re_atom_ok a c then re_here as cs True else PCRE_ERROR_NOMATCH)"

text \<open>An attempt at every offset; a partial match counts when no attempt matches.\<close>

fun re_search :: "re_atom list \<Rightarrow> string \<Rightarrow> int" where
  "re_search as [] = re_here as [] False"
| "re_search as (c # cs) =
     (let r = re_here as (c # cs) False; r' = re_search as cs
      in if r = 0 \<or> r' = 0 then 0
         else if r = PCRE_ERROR_PARTIAL \<or> r' = PCRE_ERROR_PARTIAL then PCRE_ERROR_PARTIAL
         else PCRE_ERROR_NOMATCH)"

definition re_exec :: "string \<Rightarrow> string \<Rightarrow> int" where
  "re_exec p subject =
     (case re_atoms p of
        None \<Rightarrow> PCRE_ERROR_NOMATCH
      | Some as \<Rightarrow> (if re_anchored p then re_here as subject False else re_search as subject))"

definition small_pcre_compile :: "string \<Rightarrow> pcre option" where
  "small_pcre_compile p = (if re_atoms p = None then None else Some (Pcre p))"

text \<open>
  \<open>PCRE_INFO_FIRSTBYTE\<close>, as pcreapi documents it: the fixed first byte of every match
  of a pattern that is not anchored, if there is one; \<open>-2\<close> for an anchored pattern, and
  \<open>-2\<close> also for a pattern that is not anchored and has no fixed first byte. (The value
  \<open>-1\<close> belongs to patterns outside the fragment.)
\<close>

definition small_pcre_firstbyte :: "pcre \<Rightarrow> pcre_extra option \<Rightarrow> int" where
  "small_pcre_firstbyte re ex =
     (case re of Pcre p \<Rightarrow>
        (if re_anchored p then - 2
         else (case re_atoms p of
                 Some (Lit c # as) \<Rightarrow> int (of_char c)
               | _ \<Rightarrow> - 2)))"

definition small_pcre_exec :: "pcre \<Rightarrow> pcre_extra option \<Rightarrow> string \<Rightarrow> int" where
  "small_pcre_exec re ex subject = (case re of Pcre p \<Rightarrow> re_exec p subject)"

text \<open>
  Modelled from the spec: entcmp.c is not part of the sources at hand. Section 6:
  \<open>compare (entity, candidate)\<close> implements the semantics of the entity's operation.
  Given here for the operations \<open>equals\<close> (also the default) and \<open>not equal\<close> on
  strings, and for \<open>pattern match\<close> with the engine above: the candidate has a match of
  the pattern somewhere. Everything else is an error.
\<close>

definition literal_cmp :: "entity option \<Rightarrow> string \<Rightarrow> oval_result" where
  "literal_cmp e s =
     (case e of
        None \<Rightarrow> OVAL_RESULT_ERROR
      | Some x \<Rightarrow>
          (case ent_strval x of
             STRVAL v \<Rightarrow>
               (case ent_operation x of
                  None \<Rightarrow> (if v = s then OVAL_RESULT_TRUE else OVAL_RESULT_FALSE)
                | Some OVAL_OPERATION_EQUALS \<Rightarrow>
                    (if v = s then OVAL_RESULT_TRUE else OVAL_RESULT_FALSE)
                | Some OVAL_OPERATION_NOT_EQUAL \<Rightarrow>
                    (if v \<noteq> s then OVAL_RESULT_TRUE else OVAL_RESULT_FALSE)
                | Some OVAL_OPERATION_PATTERN_MATCH \<Rightarrow>
                    (if re_atoms v = None then OVAL_RESULT_ERROR
                     else if re_exec v s = 0 then OVAL_RESULT_TRUE else OVAL_RESULT_FALSE)
                | Some _ \<Rightarrow> OVAL_RESULT_ERROR)
           | _ \<Rightarrow> OVAL_RESULT_ERROR))"

text \<open>Decimal numbers with an optional minus sign; \<open>errno\<close> is left alone.\<close>

definition strtol_dec :: "string \<Rightarrow> int \<times> bool" where
  "strtol_dec s =
     (let digits = (\<lambda>ds. foldl (\<lambda>a c. 10 * a + (int (of_char c) - 48)) 0 ds)
      in case s of
           [] \<Rightarrow> (0, False)
         | c # cs \<Rightarrow> (if c = CHR ''-'' then (- digits cs, False) else (digits s, False)))"

text \<open>
  The collaborators of the examples: the tree driver over a filesystem \<open>fs\<close>, the
  comparison and the regex engine above, a device table with the one local device \<open>1\<close>.
\<close>

definition tree_env :: "(string \<Rightarrow> fs_node option) \<Rightarrow> tree_fts collab \<Rightarrow> tree_fts collab" where
  "tree_env fs base =
     base\<lparr> fts_open := tree_fts_open fs, fts_read := tree_fts_read, fts_set := tree_fts_set \<rparr>"

definition sample_base :: "tree_fts collab" where
  "sample_base =
     \<lparr> fts_open = (\<lambda>paths fts_options. None),
       fts_read = (\<lambda>s. (None, s)),
       fts_set = (\<lambda>s e i. s),
       probe_entobj_cmp = literal_cmp,
       pcre_compile = small_pcre_compile,
       pcre_study = (\<lambda>re. None),
       pcre_firstbyte = small_pcre_firstbyte,
       pcre_exec = small_pcre_exec,
       strtol_errno = strtol_dec,
       fsdev_init = Some [1],
       stat_dev = (\<lambda>p. None),
       heap_junk = 0 \<rparr>"

definition sample_env :: "(string \<Rightarrow> fs_node option) \<Rightarrow> tree_fts collab" where
  "sample_env fs = tree_env fs sample_base"

text \<open>A filesystem with one root path.\<close>

definition one_root :: "string \<Rightarrow> fs_node \<Rightarrow> string \<Rightarrow> fs_node option" where
  "one_root p n q = (if q = p then Some n else None)"

text \<open>An entity with an operation and a string value, and the behaviors of a call.\<close>

definition ent :: "oval_operation \<Rightarrow> string \<Rightarrow> entity" where
  "ent op v = \<lparr> ent_operation = Some op, ent_strval = (if v = [] then STRVAL_ZEROLEN else STRVAL v) \<rparr>"

definition bhv :: "string \<Rightarrow> string \<Rightarrow> string \<Rightarrow> behaviors" where
  "bhv md dir fs =
     [''max_depth'' \<mapsto> md, ''recurse_direction'' \<mapsto> dir, ''recurse_file_system'' \<mapsto> fs]"

text \<open>The filesystems of the examples.\<close>

definition fs_a :: "string \<Rightarrow> fs_node option" where
  "fs_a = one_root ''/a''
     (FsDir 1 [(''b.txt'', FsFile 1), (''c'', FsDir 1 [(''d.txt'', FsFile 1)])])"

definition fs_two :: "string \<Rightarrow> fs_node option" where
  "fs_two = one_root ''/a'' (FsDir 1 [(''b.txt'', FsFile 1), (''c.txt'', FsFile 1)])"

definition fs_root :: "string \<Rightarrow> fs_node option" where
  "fs_root = one_root ''/'' (FsDir 1 [(''etc'', FsFile 1)])"

definition fs_mnt :: "string \<Rightarrow> fs_node option" where
  "fs_mnt = one_root ''/mnt'' (FsDir 1 [(''remote'', FsDir 2 [(''f'', FsFile 2)])])"

definition fs_dangling :: "string \<Rightarrow> fs_node option" where
  "fs_dangling = one_root ''/d'' (FsDir 1 [(''link'', FsLink 1 None)])"

definition fs_rel :: "string \<Rightarrow> fs_node option" where
  "fs_rel = one_root ''b.txt'' (FsFile 1)"

definition fs_bc :: "string \<Rightarrow> fs_node option" where
  "fs_bc = one_root ''/'' (FsDir 1 [(''bc'', FsDir 1 [])])"

definition fs_mounts :: "string \<Rightarrow> fs_node option" where
  "fs_mounts = one_root ''/mnt''
     (FsDir 1 [(''remote'', FsDir 2 [(''f'', FsFile 2)]), (''local'', FsDir 1 [(''f'', FsFile 1)])])"

definition fs_remote :: "string \<Rightarrow> fs_node option" where
  "fs_remote = one_root ''/mnt/remote'' (FsDir 2 [(''f'', FsFile 2)])"

definition fs_slash :: "string \<Rightarrow> fs_node option" where
  "fs_slash = one_root ''/'' (FsDir 1 [(''mnt'', FsDir 1 [(''remote'', FsDir 2 [(''f'', FsFile 2)])])])"

section \<open>The words of the specification\<close>

text \<open>
  The length of the directory portion as section 3 of the specification gives it, and
  the join of a path and a file name with a single slash.
\<close>

definition spec_pathlen :: "nat \<Rightarrow> nat \<Rightarrow> nat" where
  "spec_pathlen fts_pathlen' fts_namelen' =
     (if fts_pathlen' > fts_namelen' + 1 then fts_pathlen' - fts_namelen' - 1
      else if fts_pathlen' > fts_namelen' then fts_pathlen' - fts_namelen'
      else fts_pathlen')"

definition join_path :: "string \<Rightarrow> string \<Rightarrow> string" where
  "join_path p f = p @ ''/'' @ f"

section \<open>Notions for the statements on whole walks\<close>

text \<open>
  A device that is a member of the device set: the test that \<open>fsdev_search\<close> makes,
  for a device that may be unknown.
\<close>

definition dev_local :: "dev_t list \<Rightarrow> dev_t option \<Rightarrow> bool" where
  "dev_local devs d = (case d of None \<Rightarrow> False | Some x \<Rightarrow> x \<in> set devs)"

text \<open>
  What the candidate evaluation can accept in path+filename mode when the path operation
  is \<open>EQUALS\<close>: an entry that is neither a directory nor a symbolic link and whose name
  the filename entity accepts; and the entries of a directory that are of this kind.
\<close>

definition file_tag :: "fts_tag \<Rightarrow> bool" where
  "file_tag t \<longleftrightarrow> t \<noteq> FTS_D \<and> t \<noteq> FTS_SL \<and> t \<noteq> FTS_DP \<and> t \<noteq> FTS_DC"

definition name_accepted ::
  "(entity option \<Rightarrow> string \<Rightarrow> oval_result) \<Rightarrow> entity option \<Rightarrow> FTSENT \<Rightarrow> bool" where
  "name_accepted cmp fn e \<longleftrightarrow> file_tag (fts_info e) \<and> cmp fn (fts_name e) = OVAL_RESULT_TRUE"

definition accepted_children ::
  "(entity option \<Rightarrow> string \<Rightarrow> oval_result) \<Rightarrow> entity option \<Rightarrow> fs_node
     \<Rightarrow> (string \<times> fs_node) list" where
  "accepted_children cmp fn n =
     filter (\<lambda>c. file_tag (lstat_info (snd c)) \<and> cmp fn (fst c) = OVAL_RESULT_TRUE) (dir_entries n)"

section \<open>Invariants of a traversal with the tree driver\<close>

text \<open>
  For the depth limit: no pending visit and no current entry lies deeper than \<open>K\<close>
  (\<open>depth_ret\<close>, what holds when the driver returns), and a directory at depth \<open>K\<close>
  has been told to skip (\<open>depth_inv\<close>, what holds when the driver is called).
\<close>

fun item_level :: "tree_item \<Rightarrow> int" where
  "item_level (Pre e n) = fts_level e"
| "item_level (Post e) = fts_level e"

definition depth_ret :: "int \<Rightarrow> tree_fts \<Rightarrow> bool" where
  "depth_ret K s \<longleftrightarrow>
     list_all (\<lambda>i. item_level i \<le> K) (t_todo s)
     \<and> (case t_cur s of None \<Rightarrow> True | Some (e, n) \<Rightarrow> fts_level e \<le> K)"

definition depth_inv :: "int \<Rightarrow> tree_fts \<Rightarrow> bool" where
  "depth_inv K s \<longleftrightarrow>
     depth_ret K s
     \<and> (case t_cur s of
          None \<Rightarrow> True
        | Some (e, n) \<Rightarrow> fts_info e = FTS_D \<and> K \<le> fts_level e \<longrightarrow> t_instr s = Some FTS_SKIP)"

text \<open>
  For the direction \<open>none\<close> in path-only mode: no entry is to be followed, and the
  current entry, when it is a directory, has been told to skip.
\<close>

definition skip_inv :: "tree_fts \<Rightarrow> bool" where
  "skip_inv s \<longleftrightarrow>
     t_instr s \<noteq> Some FTS_FOLLOW
     \<and> (case t_cur s of
          None \<Rightarrow> True
        | Some (e, n) \<Rightarrow> fts_info e = FTS_D \<longrightarrow> t_instr s = Some FTS_SKIP)"

text \<open>
  For the local filesystems: every pending visit and the current entry lie in a
  directory on one of the devices \<open>devs\<close>, or are starting roots, or lie directly in
  a starting root while a filename entity is set (\<open>fm\<close>), and a directory has a stat
  buffer (\<open>local_ret\<close>, what holds when the driver returns); and a directory whose
  content would not lie so has been told to skip (\<open>local_inv\<close>, what holds when the
  driver is called).
\<close>

fun item_ent :: "tree_item \<Rightarrow> FTSENT" where
  "item_ent (Pre e n) = e"
| "item_ent (Post e) = e"

definition in_local_dir :: "dev_t list \<Rightarrow> bool \<Rightarrow> FTSENT \<Rightarrow> bool" where
  "in_local_dir devs fm e \<longleftrightarrow>
     fts_level e = 0 \<or> (fts_level e = 1 \<and> fm) \<or> dev_local devs (fts_parent_dev e)"

definition local_item :: "dev_t list \<Rightarrow> bool \<Rightarrow> FTSENT \<Rightarrow> bool" where
  "local_item devs fm e \<longleftrightarrow>
     in_local_dir devs fm e \<and> (fts_info e = FTS_D \<longrightarrow> fts_statp e \<noteq> None)"

definition local_ret :: "dev_t list \<Rightarrow> bool \<Rightarrow> tree_fts \<Rightarrow> bool" where
  "local_ret devs fm s \<longleftrightarrow>
     list_all (\<lambda>i. local_item devs fm (item_ent i)) (t_todo s)
     \<and> (case t_cur s of None \<Rightarrow> True | Some (e, n) \<Rightarrow> local_item devs fm e)"

definition local_inv :: "dev_t list \<Rightarrow> bool \<Rightarrow> tree_fts \<Rightarrow> bool" where
  "local_inv devs fm s \<longleftrightarrow>
     local_ret devs fm s
     \<and> (case t_cur s of
          None \<Rightarrow> True
        | Some (e, n) \<Rightarrow>
            fts_info e = FTS_D \<and> \<not> (fts_level e = 0 \<and> fm) \<and> \<not> dev_local devs (fts_statp e)
              \<longrightarrow> t_instr s = Some FTS_SKIP)"

text \<open>
  For the direction \<open>none\<close> with a filename entity: what a traversal can still yield.
  A pending root counts one, a pending entry below a root counts one when \<open>Y\<close> accepts
  it, and a root directory that is about to be entered counts as many as it has entries
  that \<open>Y\<close> accepts. Levels are not negative, a pending root has at most one such entry,
  no entry is to be followed, and a directory below a root has been told to skip.
\<close>

fun item_weight :: "(FTSENT \<Rightarrow> bool) \<Rightarrow> tree_item \<Rightarrow> nat" where
  "item_weight Y (Pre e n) = (if fts_level e = 0 \<or> Y e then 1 else 0)"
| "item_weight Y (Post e) = 0"

definition cur_weight :: "(FTSENT \<Rightarrow> bool) \<Rightarrow> tree_fts \<Rightarrow> nat" where
  "cur_weight Y s =
     (case t_cur s of
        None \<Rightarrow> 0
      | Some (e, n) \<Rightarrow>
          (if fts_info e = FTS_D \<and> fts_level e = 0 \<and> t_instr s \<noteq> Some FTS_SKIP
           then length (filter (\<lambda>c. Y (child_ent e c)) (dir_entries n)) else 0))"

definition budget :: "(FTSENT \<Rightarrow> bool) \<Rightarrow> tree_fts \<Rightarrow> nat" where
  "budget Y s = cur_weight Y s + sum_list (map (item_weight Y) (t_todo s))"

fun item_ok :: "(FTSENT \<Rightarrow> bool) \<Rightarrow> tree_item \<Rightarrow> bool" where
  "item_ok Y (Pre e n) \<longleftrightarrow>
     0 \<le> fts_level e
     \<and> (fts_level e = 0 \<longrightarrow> length (filter (\<lambda>c. Y (child_ent e c)) (dir_entries n)) \<le> 1)"
| "item_ok Y (Post e) \<longleftrightarrow> 0 \<le> fts_level e"

definition none_ret :: "(FTSENT \<Rightarrow> bool) \<Rightarrow> tree_fts \<Rightarrow> bool" where
  "none_ret Y s \<longleftrightarrow>
     list_all (item_ok Y) (t_todo s)
     \<and> (case t_cur s of None \<Rightarrow> True | Some (e, n) \<Rightarrow> 0 \<le> fts_level e)"

definition none_inv :: "(FTSENT \<Rightarrow> bool) \<Rightarrow> tree_fts \<Rightarrow> bool" where
  "none_inv Y s \<longleftrightarrow>
     none_ret Y s \<and> t_instr s \<noteq> Some FTS_FOLLOW
     \<and> (case t_cur s of
          None \<Rightarrow> True
        | Some (e, n) \<Rightarrow> fts_info e = FTS_D \<and> fts_level e \<noteq> 0 \<longrightarrow> t_instr s = Some FTS_SKIP)"

section \<open>Auxiliary facts\<close>

text \<open>The narrowing at line 212 keeps an \<open>int\<close> and wraps what lies beyond.\<close>

lemma long_to_int_values:
  "long_to_int (- 1) = - 1" "long_to_int 7 = 7"
  "long_to_int 2147483648 = - 2147483648" "long_to_int 4294967295 = - 1"
  by (simp_all add: long_to_int_def)

lemma read_match_fts [simp]:
  "oval_fts_read_match env (ofts\<lparr>ofts_fts := f\<rparr>) e = oval_fts_read_match env ofts e"
  by (auto simp: oval_fts_read_match_def OVAL_FTSENT_new_def)

lemma read_body_Emit:
  assumes "oval_fts_read_body env ofts e = Emit x f'"
  shows "oval_fts_read_match env ofts e = Some x"
    and "f' = oval_fts_read_steer env ofts e"
    and "fts_info e \<noteq> FTS_DP" and "fts_info e \<noteq> FTS_DC"
  using assms
  by (auto simp: oval_fts_read_body_def Let_def split: if_splits option.splits)

lemma read_loop_Some:
  "oval_fts_read_loop env n ofts = Some (Some (e, x), ofts') \<Longrightarrow>
     oval_fts_read_match env ofts e = Some x"
proof (induction n arbitrary: ofts)
  case 0
  then show ?case by simp
next
  case (Suc n)
  obtain r f where rd: "fts_read env (ofts_fts ofts) = (r, f)" by (cases "fts_read env (ofts_fts ofts)")
  show ?case
  proof (cases r)
    case None
    with Suc.prems rd show ?thesis by simp
  next
    case (Some e1)
    show ?thesis
    proof (cases "oval_fts_read_body env (ofts\<lparr>ofts_fts := f\<rparr>) e1")
      case (Continue f')
      with Suc.prems rd Some have "oval_fts_read_loop env n (ofts\<lparr>ofts_fts := f'\<rparr>) = Some (Some (e, x), ofts')"
        by simp
      from Suc.IH[OF this] show ?thesis by simp
    next
      case (Emit y f')
      with Suc.prems rd Some have "e1 = e" "y = x" by simp_all
      with Emit read_body_Emit(1)[of env "ofts\<lparr>ofts_fts := f\<rparr>" e x f'] show ?thesis by simp
    next
      case (Abort f')
      with Suc.prems rd Some show ?thesis by simp
    qed
  qed
qed

lemma read_match_Some:
  assumes "oval_fts_read_match env ofts e = Some x"
  shows "x = OVAL_FTSENT_new ofts e" and "fts_info e \<noteq> FTS_SL"
  using assms
  by (auto simp: oval_fts_read_match_def Let_def split: if_splits)

lemma read_match_filepath:
  assumes "oval_fts_read_match env ofts e = Some x" and "ofts_sfilepath ofts \<noteq> None"
  shows "probe_entobj_cmp env (ofts_sfilepath ofts) (fts_path e) = OVAL_RESULT_TRUE"
  using assms
  by (auto simp: oval_fts_read_match_def Let_def split: if_splits)

lemma read_match_filename:
  assumes "oval_fts_read_match env ofts e = Some x"
    and "ofts_sfilepath ofts = None" and "ofts_sfilename ofts \<noteq> None"
  shows "probe_entobj_cmp env (ofts_sfilename ofts) (fts_name e) = OVAL_RESULT_TRUE"
    and "ofts_path_op ofts \<noteq> OVAL_OPERATION_EQUALS \<Longrightarrow>
         probe_entobj_cmp env (ofts_spath ofts)
           (first_bytes (pathlen_from_ftse (int (fts_pathlen e)) (int (fts_namelen e))) (fts_path e))
         = OVAL_RESULT_TRUE"
  using assms
  by (auto simp: oval_fts_read_match_def Let_def split: if_splits)

lemma read_match_pathonly:
  assumes "oval_fts_read_match env ofts e = Some x"
    and "ofts_sfilepath ofts = None" and "ofts_sfilename ofts = None"
    and "ofts_path_op ofts \<noteq> OVAL_OPERATION_EQUALS"
  shows "probe_entobj_cmp env (ofts_spath ofts) (fts_path e) = OVAL_RESULT_TRUE"
  using assms
  by (auto simp: oval_fts_read_match_def Let_def split: if_splits)

lemma read_loop_handle:
  "oval_fts_read_loop env n ofts = Some (r, ofts') \<Longrightarrow> ofts' = ofts\<lparr>ofts_fts := ofts_fts ofts'\<rparr>"
proof (induction n arbitrary: ofts)
  case 0
  then show ?case by simp
next
  case (Suc n)
  obtain r1 f where rd: "fts_read env (ofts_fts ofts) = (r1, f)"
    by (cases "fts_read env (ofts_fts ofts)")
  show ?case
  proof (cases r1)
    case None
    with Suc.prems rd show ?thesis by auto
  next
    case (Some e1)
    show ?thesis
    proof (cases "oval_fts_read_body env (ofts\<lparr>ofts_fts := f\<rparr>) e1")
      case (Continue f')
      with Suc.prems rd Some
      have "oval_fts_read_loop env n (ofts\<lparr>ofts_fts := f'\<rparr>) = Some (r, ofts')" by simp
      from Suc.IH[OF this] show ?thesis by simp
    next
      case (Emit y f')
      with Suc.prems rd Some show ?thesis by auto
    next
      case (Abort f')
      with Suc.prems rd Some show ?thesis by auto
    qed
  qed
qed

lemma walk_match:
  "oval_fts_walk env n ofts = Some xs \<Longrightarrow> (e, x) \<in> set xs \<Longrightarrow>
     oval_fts_read_match env ofts e = Some x"
proof (induction n arbitrary: ofts xs)
  case 0
  then show ?case by simp
next
  case (Suc n)
  from Suc.prems(1) obtain r ofts' where
    lp: "oval_fts_read_loop env (Suc n) ofts = Some (r, ofts')"
    by (cases "oval_fts_read_loop env (Suc n) ofts") auto
  show ?case
  proof (cases r)
    case None
    with Suc.prems lp show ?thesis by simp
  next
    case (Some ex)
    with Suc.prems(1) lp obtain ys where
      ys: "oval_fts_walk env n ofts' = Some ys" and xs: "xs = ex # ys"
      by auto
    from read_loop_handle[OF lp] obtain f where h: "ofts' = ofts\<lparr>ofts_fts := f\<rparr>" by blast
    show ?thesis
    proof (cases "(e, x) = ex")
      case True
      with lp Some have "oval_fts_read_loop env (Suc n) ofts = Some (Some (e, x), ofts')" by simp
      then show ?thesis by (rule read_loop_Some)
    next
      case False
      with Suc.prems(2) xs have "(e, x) \<in> set ys" by simp
      from Suc.IH[OF ys this] h show ?thesis by simp
    qed
  qed
qed

lemma session_walk:
  "oval_fts_session env p fn fp bh n = Some xs \<Longrightarrow>
     \<exists>ofts live. oval_fts_open env p fn fp bh = Opened ofts live \<and> oval_fts_walk env n ofts = Some xs"
  by (auto simp: oval_fts_session_def split: opened.splits)

lemma open_regex_keeps:
  assumes "oval_fts_open_regex env s ofts live = Some (ofts', live')"
  shows "ofts' = ofts\<lparr> ofts_path_regex := ofts_path_regex ofts',
                       ofts_path_regex_extra := ofts_path_regex_extra ofts' \<rparr>"
  using assms
  by (auto simp: oval_fts_open_regex_def Let_def split: option.splits if_splits)

lemma open_regex_decides:
  assumes "oval_fts_open_regex env s ofts live = Some (ofts', live')"
  shows "\<exists>regex. pcre_compile env s = Some regex \<and>
           (if (pcre_firstbyte env regex (pcre_study env regex) = 47
                 \<or> pcre_firstbyte env regex (pcre_study env regex) = - 2)
               \<and> pcre_exec env regex (pcre_study env regex) ''/f0o/bar/baz'' \<noteq> PCRE_ERROR_BADPARTIAL
            then ofts_path_regex ofts' = Some regex
                 \<and> ofts_path_regex_extra ofts' = pcre_study env regex
                 \<and> live' = (if pcre_study env regex \<noteq> None then [RES_regex_extra] else [])
                             @ RES_regex # live
            else ofts_path_regex ofts' = None \<and> ofts_path_regex_extra ofts' = None
                 \<and> live' = removeAll RES_regex_extra (removeAll RES_regex live))"
proof -
  from assms obtain regex where c: "pcre_compile env s = Some regex"
    by (auto simp: oval_fts_open_regex_def split: option.splits)
  with assms show ?thesis
    by (auto simp: oval_fts_open_regex_def Let_def split: if_splits)
qed

lemma open_finish_path:
  assumes "oval_fts_open_finish env (Some p) fn fp l ofts2 live2 = Opened ofts live"
  shows "\<exists>ld. ofts = ofts2\<lparr> localdevs := ld, ofts_spath := Some p,
                   ofts_sfilename := (if \<not> l_nilfilename l then fn else ofts_sfilename ofts2),
                   max_depth := l_max_depth l, direction := l_direction l,
                   recurse := l_recurse l, filesystem := l_filesystem l \<rparr>
              \<and> (if l_filesystem l = OVAL_RECURSE_FS_LOCAL
                  then ld \<noteq> None \<and> fsdev_init env = ld else ld = localdevs ofts2)"
  using assms
  by (auto simp: oval_fts_open_finish_def split: option.splits if_splits)

lemma open_finish_filepath:
  assumes "oval_fts_open_finish env None fn fp l ofts2 live2 = Opened ofts live"
  shows "ofts = ofts2\<lparr> ofts_sfilepath := fp \<rparr>" and "live = RES_sfilepath # live2"
  using assms
  by (auto simp: oval_fts_open_finish_def)

text \<open>The handle when line 355 is reached.\<close>

lemma open_handle_mid:
  assumes "oval_fts_open_handle env p fn fp op l = Opened ofts live"
  shows "\<exists>ofts0 ofts2 live2.
           OVAL_FTS_new env [if op = OVAL_OPERATION_EQUALS then l_cstr_path l else ''/''] 1
             (l_fts_options l) = Some ofts0
         \<and> (if op = OVAL_OPERATION_PATTERN_MATCH then
               oval_fts_open_regex env (l_cstr_path l)
                 (ofts0\<lparr> ofts_st_path := [if op = OVAL_OPERATION_EQUALS then l_cstr_path l else ''/''],
                         ofts_st_path_count := 1, ofts_st_path_index := 0, ofts_path_op := op \<rparr>)
                 [RES_fts, RES_ofts, RES_paths0, RES_paths] = Some (ofts2, live2)
             else
               ofts2 = ofts0\<lparr> ofts_st_path := [if op = OVAL_OPERATION_EQUALS then l_cstr_path l else ''/''],
                         ofts_st_path_count := 1, ofts_st_path_index := 0, ofts_path_op := op \<rparr>
               \<and> live2 = [RES_fts, RES_ofts, RES_paths0, RES_paths])
         \<and> oval_fts_open_finish env p fn fp l ofts2 live2 = Opened ofts live"
  using assms
  by (auto simp: oval_fts_open_handle_def Let_def split: option.splits if_splits)

lemma open_behaviors_keeps:
  assumes "oval_fts_open_behaviors env bh l = Some l'"
  shows "l_cstr_path l' = l_cstr_path l" and "l_nilfilename l' = l_nilfilename l"
  using assms
  by (auto simp: oval_fts_open_behaviors_def split: option.splits if_splits)

lemma open_locals_cstr:
  assumes "oval_fts_open_locals env p fn fp bh = Some l"
  shows "ent_strval_of (if p \<noteq> None then p else fp) = STRVAL (l_cstr_path l)"
  using assms
  by (auto simp: oval_fts_open_locals_def Let_def open_behaviors_keeps
           split: if_splits strval.splits)

lemma open_locals_filepath:
  "oval_fts_open_locals env None fn fp bh = oval_fts_open_locals env None fn fp bh'"
  by (simp add: oval_fts_open_locals_def)

lemma open_Opened:
  assumes "oval_fts_open env p fn fp bh = Opened ofts live"
  shows "\<exists>l. oval_fts_open_locals env p fn fp bh = Some l
            \<and> oval_fts_open_handle env p fn fp (oval_fts_open_path_op p fp) l = Opened ofts live"
    and "(p = None \<and> fn = None \<and> fp \<noteq> None) \<or> (p \<noteq> None \<and> fp = None)"
  using assms
  by (auto simp: oval_fts_open_def split: if_splits option.splits)

text \<open>The handle when line 355 is reached, in terms of what \<open>OVAL_FTS_new\<close> made.\<close>

lemma open_handle_form:
  assumes "oval_fts_open_handle env p fn fp op l = Opened ofts live"
  shows "\<exists>fts r x live2.
           fts_open env [if op = OVAL_OPERATION_EQUALS then l_cstr_path l else ''/'']
             (l_fts_options l) = Some fts
         \<and> (op \<noteq> OVAL_OPERATION_PATTERN_MATCH \<longrightarrow> r = None)
         \<and> oval_fts_open_finish env p fn fp l
             \<lparr> ofts_fts = fts,
               ofts_st_path = [if op = OVAL_OPERATION_EQUALS then l_cstr_path l else ''/''],
               ofts_st_path_count = 1, ofts_st_path_index = 0,
               ofts_spath = None, ofts_sfilename = None, ofts_sfilepath = None,
               ofts_path_regex = r, ofts_path_regex_extra = x,
               ofts_path_op = op, max_depth = - 1, direction = - 1,
               recurse = heap_junk env, filesystem = - 1, localdevs = None \<rparr> live2
             = Opened ofts live"
proof -
  let ?paths = "[if op = OVAL_OPERATION_EQUALS then l_cstr_path l else ''/'']"
  from open_handle_mid[OF assms] obtain ofts0 ofts2 live2 where
    new: "OVAL_FTS_new env ?paths 1 (l_fts_options l) = Some ofts0"
    and mid: "if op = OVAL_OPERATION_PATTERN_MATCH then
               oval_fts_open_regex env (l_cstr_path l)
                 (ofts0\<lparr> ofts_st_path := ?paths,
                         ofts_st_path_count := 1, ofts_st_path_index := 0, ofts_path_op := op \<rparr>)
                 [RES_fts, RES_ofts, RES_paths0, RES_paths] = Some (ofts2, live2)
             else
               ofts2 = ofts0\<lparr> ofts_st_path := ?paths,
                         ofts_st_path_count := 1, ofts_st_path_index := 0, ofts_path_op := op \<rparr>
               \<and> live2 = [RES_fts, RES_ofts, RES_paths0, RES_paths]"
    and fin: "oval_fts_open_finish env p fn fp l ofts2 live2 = Opened ofts live"
    by blast
  from new obtain fts where fo: "fts_open env ?paths (l_fts_options l) = Some fts"
    and o0: "ofts0 = \<lparr> ofts_fts = fts, ofts_st_path = ?paths,
               ofts_st_path_count = 1, ofts_st_path_index = 0,
               ofts_spath = None, ofts_sfilename = None, ofts_sfilepath = None,
               ofts_path_regex = None, ofts_path_regex_extra = None,
               ofts_path_op = OVAL_OPERATION_UNKNOWN, max_depth = - 1, direction = - 1,
               recurse = heap_junk env, filesystem = - 1, localdevs = None \<rparr>"
    by (auto simp: OVAL_FTS_new_def split: option.splits)
  have "\<exists>r x. ofts2 = \<lparr> ofts_fts = fts, ofts_st_path = ?paths,
               ofts_st_path_count = 1, ofts_st_path_index = 0,
               ofts_spath = None, ofts_sfilename = None, ofts_sfilepath = None,
               ofts_path_regex = r, ofts_path_regex_extra = x,
               ofts_path_op = op, max_depth = - 1, direction = - 1,
               recurse = heap_junk env, filesystem = - 1, localdevs = None \<rparr>
             \<and> (op \<noteq> OVAL_OPERATION_PATTERN_MATCH \<longrightarrow> r = None)"
  proof (cases "op = OVAL_OPERATION_PATTERN_MATCH")
    case True
    with mid have "oval_fts_open_regex env (l_cstr_path l)
                 (ofts0\<lparr> ofts_st_path := ?paths,
                         ofts_st_path_count := 1, ofts_st_path_index := 0, ofts_path_op := op \<rparr>)
                 [RES_fts, RES_ofts, RES_paths0, RES_paths] = Some (ofts2, live2)" by simp
    from open_regex_keeps[OF this] True show ?thesis unfolding o0 by simp blast
  next
    case False
    with mid show ?thesis unfolding o0 by simp
  qed
  with fo fin show ?thesis by blast
qed

lemma open_handle_filepath:
  assumes "oval_fts_open_handle env None fn fp op l = Opened ofts live"
  shows "\<exists>fts r x.
           fts_open env [if op = OVAL_OPERATION_EQUALS then l_cstr_path l else ''/'']
             (l_fts_options l) = Some fts
         \<and> (op \<noteq> OVAL_OPERATION_PATTERN_MATCH \<longrightarrow> r = None)
         \<and> ofts =
             \<lparr> ofts_fts = fts,
               ofts_st_path = [if op = OVAL_OPERATION_EQUALS then l_cstr_path l else ''/''],
               ofts_st_path_count = 1, ofts_st_path_index = 0,
               ofts_spath = None, ofts_sfilename = None, ofts_sfilepath = fp,
               ofts_path_regex = r, ofts_path_regex_extra = x,
               ofts_path_op = op, max_depth = - 1, direction = - 1,
               recurse = heap_junk env, filesystem = - 1, localdevs = None \<rparr>"
proof -
  from open_handle_form[OF assms] obtain fts r x live2 where
    a: "fts_open env [if op = OVAL_OPERATION_EQUALS then l_cstr_path l else ''/'']
             (l_fts_options l) = Some fts"
    and b: "op \<noteq> OVAL_OPERATION_PATTERN_MATCH \<longrightarrow> r = None"
    and c: "oval_fts_open_finish env None fn fp l
             \<lparr> ofts_fts = fts,
               ofts_st_path = [if op = OVAL_OPERATION_EQUALS then l_cstr_path l else ''/''],
               ofts_st_path_count = 1, ofts_st_path_index = 0,
               ofts_spath = None, ofts_sfilename = None, ofts_sfilepath = None,
               ofts_path_regex = r, ofts_path_regex_extra = x,
               ofts_path_op = op, max_depth = - 1, direction = - 1,
               recurse = heap_junk env, filesystem = - 1, localdevs = None \<rparr> live2
             = Opened ofts live" by blast
  from open_finish_filepath(1)[OF c] have "ofts = \<lparr> ofts_fts = fts,
               ofts_st_path = [if op = OVAL_OPERATION_EQUALS then l_cstr_path l else ''/''],
               ofts_st_path_count = 1, ofts_st_path_index = 0,
               ofts_spath = None, ofts_sfilename = None, ofts_sfilepath = fp,
               ofts_path_regex = r, ofts_path_regex_extra = x,
               ofts_path_op = op, max_depth = - 1, direction = - 1,
               recurse = heap_junk env, filesystem = - 1, localdevs = None \<rparr>" by simp
  with a b show ?thesis by blast
qed

lemma open_handle_path:
  assumes "oval_fts_open_handle env (Some p) fn fp op l = Opened ofts live"
  shows "\<exists>fts r x ld.
           fts_open env [if op = OVAL_OPERATION_EQUALS then l_cstr_path l else ''/'']
             (l_fts_options l) = Some fts
         \<and> (op \<noteq> OVAL_OPERATION_PATTERN_MATCH \<longrightarrow> r = None)
         \<and> (if l_filesystem l = OVAL_RECURSE_FS_LOCAL
             then ld \<noteq> None \<and> fsdev_init env = ld else ld = None)
         \<and> ofts =
             \<lparr> ofts_fts = fts,
               ofts_st_path = [if op = OVAL_OPERATION_EQUALS then l_cstr_path l else ''/''],
               ofts_st_path_count = 1, ofts_st_path_index = 0,
               ofts_spath = Some p,
               ofts_sfilename = (if \<not> l_nilfilename l then fn else None),
               ofts_sfilepath = None,
               ofts_path_regex = r, ofts_path_regex_extra = x,
               ofts_path_op = op, max_depth = l_max_depth l, direction = l_direction l,
               recurse = l_recurse l, filesystem = l_filesystem l, localdevs = ld \<rparr>"
proof -
  from open_handle_form[OF assms] obtain fts r x live2 where
    a: "fts_open env [if op = OVAL_OPERATION_EQUALS then l_cstr_path l else ''/'']
             (l_fts_options l) = Some fts"
    and b: "op \<noteq> OVAL_OPERATION_PATTERN_MATCH \<longrightarrow> r = None"
    and c: "oval_fts_open_finish env (Some p) fn fp l
             \<lparr> ofts_fts = fts,
               ofts_st_path = [if op = OVAL_OPERATION_EQUALS then l_cstr_path l else ''/''],
               ofts_st_path_count = 1, ofts_st_path_index = 0,
               ofts_spath = None, ofts_sfilename = None, ofts_sfilepath = None,
               ofts_path_regex = r, ofts_path_regex_extra = x,
               ofts_path_op = op, max_depth = - 1, direction = - 1,
               recurse = heap_junk env, filesystem = - 1, localdevs = None \<rparr> live2
             = Opened ofts live" by blast
  from open_finish_path[OF c] obtain ld where
    "ofts = \<lparr> ofts_fts = fts,
               ofts_st_path = [if op = OVAL_OPERATION_EQUALS then l_cstr_path l else ''/''],
               ofts_st_path_count = 1, ofts_st_path_index = 0,
               ofts_spath = Some p,
               ofts_sfilename = (if \<not> l_nilfilename l then fn else None),
               ofts_sfilepath = None,
               ofts_path_regex = r, ofts_path_regex_extra = x,
               ofts_path_op = op, max_depth = l_max_depth l, direction = l_direction l,
               recurse = l_recurse l, filesystem = l_filesystem l, localdevs = ld \<rparr>"
    and "if l_filesystem l = OVAL_RECURSE_FS_LOCAL
             then ld \<noteq> None \<and> fsdev_init env = ld else ld = None"
    by (auto split: if_splits)
  with a b show ?thesis by blast
qed

lemma open_finish_regex:
  assumes "oval_fts_open_finish env p fn fp l ofts2 live2 = Opened ofts live"
  shows "ofts_path_regex ofts = ofts_path_regex ofts2"
    and "ofts_path_regex_extra ofts = ofts_path_regex_extra ofts2"
    and "RES_regex \<in> set live \<longleftrightarrow> RES_regex \<in> set live2"
    and "RES_regex_extra \<in> set live \<longleftrightarrow> RES_regex_extra \<in> set live2"
  using assms
  by (auto simp: oval_fts_open_finish_def split: option.splits if_splits)

lemma open_handle_roots:
  assumes "oval_fts_open_handle env p fn fp op l = Opened ofts live"
  shows "ofts_path_op ofts = op"
    and "ofts_st_path ofts = [if op = OVAL_OPERATION_EQUALS then l_cstr_path l else ''/'']"
    and "ofts_st_path_count ofts = 1"
    and "fts_open env (ofts_st_path ofts) (l_fts_options l) = Some (ofts_fts ofts)"
proof -
  have "ofts_path_op ofts = op
      \<and> ofts_st_path ofts = [if op = OVAL_OPERATION_EQUALS then l_cstr_path l else ''/'']
      \<and> ofts_st_path_count ofts = 1
      \<and> fts_open env (ofts_st_path ofts) (l_fts_options l) = Some (ofts_fts ofts)"
  proof (cases p)
    case None
    with assms open_handle_filepath[of env fn fp op l ofts live] show ?thesis by auto
  next
    case (Some q)
    with assms open_handle_path[of env q fn fp op l ofts live] show ?thesis by auto
  qed
  then show "ofts_path_op ofts = op"
    and "ofts_st_path ofts = [if op = OVAL_OPERATION_EQUALS then l_cstr_path l else ''/'']"
    and "ofts_st_path_count ofts = 1"
    and "fts_open env (ofts_st_path ofts) (l_fts_options l) = Some (ofts_fts ofts)"
    by blast+
qed

lemma steer_no_direction:
  assumes "direction ofts = - 1"
  shows "oval_fts_read_steer env ofts e = ofts_fts ofts"
  using assms
  by (simp add: oval_fts_read_steer_def Let_def OVAL_RECURSE_DIRECTION_NONE_def
        OVAL_RECURSE_DIRECTION_DOWN_def OVAL_RECURSE_DIRECTION_UP_def)

lemma body_no_regex:
  assumes "ofts_path_regex ofts = None"
  shows "turn_fts (oval_fts_read_body env ofts e)
           = (if fts_info e = FTS_DP \<or> fts_info e = FTS_DC then ofts_fts ofts
              else oval_fts_read_steer env ofts e)"
  using assms
  by (auto simp: oval_fts_read_body_def Let_def split: option.splits)

lemma pathlen_from_ftse_spec:
  "pathlen_from_ftse (int a) (int b) = int (spec_pathlen a b)"
  by (auto simp: pathlen_from_ftse_def spec_pathlen_def Let_def)

lemma first_bytes_spec:
  "first_bytes (pathlen_from_ftse (int a) (int b)) s = take (spec_pathlen a b) s"
  by (simp add: first_bytes_def pathlen_from_ftse_spec)

lemma FTSENT_new_filename:
  assumes "ofts_sfilename ofts \<noteq> None"
  shows "path (OVAL_FTSENT_new ofts e) = take (spec_pathlen (fts_pathlen e) (fts_namelen e)) (fts_path e)"
    and "file (OVAL_FTSENT_new ofts e) = Some (fts_name e)"
    and "path_len (OVAL_FTSENT_new ofts e) = int (spec_pathlen (fts_pathlen e) (fts_namelen e))"
  using assms
  by (auto simp: OVAL_FTSENT_new_def Let_def first_bytes_def pathlen_from_ftse_spec)

lemma split_dir_name:
  assumes "p = d @ ''/'' @ nm"
  shows "take (spec_pathlen (length p) (length nm)) p = (if d = [] then ''/'' else d)"
  using assms by (auto simp: spec_pathlen_def)

lemma steer_local_skip:
  assumes "direction ofts = OVAL_RECURSE_DIRECTION_DOWN"
    and "filesystem ofts = OVAL_RECURSE_FS_LOCAL"
    and "fts_info e = FTS_D \<or> fts_info e = FTS_SL"
    and "\<not> (fts_level e = 0 \<and> ofts_sfilename ofts \<noteq> None)"
    and "\<not> OVAL_FTS_localp env ofts (Some (fts_path e)) (fts_statp e)"
  shows "\<exists>fts. oval_fts_read_steer env ofts e = fts_set env fts e FTS_SKIP"
  using assms
  by (auto simp: oval_fts_read_steer_def oval_fts_read_localfs_def Let_def
        OVAL_RECURSE_DIRECTION_NONE_def OVAL_RECURSE_DIRECTION_DOWN_def)

lemma tree_env_sel [simp]:
  "fts_read (tree_env fs base) = tree_fts_read"
  "fts_set (tree_env fs base) = tree_fts_set"
  "fts_open (tree_env fs base) = tree_fts_open fs"
  by (simp_all add: tree_env_def)

lemma tree_fts_set_cur:
  "t_cur s = Some (e, n) \<Longrightarrow> tree_fts_set s e i = s\<lparr> t_instr := Some i \<rparr>"
  by (simp add: tree_fts_set_def)

text \<open>A reading loop keeps what every turn keeps.\<close>

lemma read_loop_invariant:
  assumes rd: "\<And>f r f'. I f \<Longrightarrow> fts_read env f = (r, f') \<Longrightarrow>
                 (case r of None \<Rightarrow> I f' | Some e \<Rightarrow> R e f')"
    and bd: "\<And>e f. R e f \<Longrightarrow> I (turn_fts (oval_fts_read_body env (h\<lparr>ofts_fts := f\<rparr>) e))"
  shows "I g \<Longrightarrow> oval_fts_read_loop env n (h\<lparr>ofts_fts := g\<rparr>) = Some (r, ofts') \<Longrightarrow>
           I (ofts_fts ofts') \<and> (\<forall>e x. r = Some (e, x) \<longrightarrow> (\<exists>f. R e f))"
proof (induction n arbitrary: g)
  case 0
  then show ?case by simp
next
  case (Suc n)
  obtain r1 f where r1: "fts_read env g = (r1, f)" by (cases "fts_read env g")
  show ?case
  proof (cases r1)
    case None
    with rd[OF Suc.prems(1) r1] Suc.prems(2) r1 show ?thesis by auto
  next
    case (Some e1)
    with rd[OF Suc.prems(1) r1] have R: "R e1 f" by simp
    note I' = bd[OF R]
    show ?thesis
    proof (cases "oval_fts_read_body env (h\<lparr>ofts_fts := f\<rparr>) e1")
      case (Continue f')
      with I' have "I f'" by simp
      moreover from Continue Suc.prems(2) r1 Some
      have "oval_fts_read_loop env n (h\<lparr>ofts_fts := f'\<rparr>) = Some (r, ofts')" by simp
      ultimately show ?thesis by (rule Suc.IH)
    next
      case (Emit y f')
      with I' have "I f'" by simp
      with Emit Suc.prems(2) r1 Some R show ?thesis by auto
    next
      case (Abort f')
      with I' have "I f'" by simp
      with Abort Suc.prems(2) r1 Some show ?thesis by auto
    qed
  qed
qed

lemma walk_invariant:
  assumes rd: "\<And>f r f'. I f \<Longrightarrow> fts_read env f = (r, f') \<Longrightarrow>
                 (case r of None \<Rightarrow> I f' | Some e \<Rightarrow> R e f')"
    and bd: "\<And>e f. R e f \<Longrightarrow> I (turn_fts (oval_fts_read_body env (h\<lparr>ofts_fts := f\<rparr>) e))"
  shows "I g \<Longrightarrow> oval_fts_walk env n (h\<lparr>ofts_fts := g\<rparr>) = Some xs \<Longrightarrow> (e, x) \<in> set xs \<Longrightarrow>
           \<exists>f. R e f"
proof (induction n arbitrary: g xs)
  case 0
  then show ?case by simp
next
  case (Suc n)
  from Suc.prems(2) obtain r ofts' where
    lp: "oval_fts_read_loop env (Suc n) (h\<lparr>ofts_fts := g\<rparr>) = Some (r, ofts')"
    by (cases "oval_fts_read_loop env (Suc n) (h\<lparr>ofts_fts := g\<rparr>)") auto
  have "I (ofts_fts ofts') \<and> (\<forall>e x. r = Some (e, x) \<longrightarrow> (\<exists>f. R e f))"
    by (rule read_loop_invariant[where I=I and R=R and env=env and h=h and g=g and n="Suc n"])
       (fact rd, fact bd, fact Suc.prems(1), fact lp)
  then have I': "I (ofts_fts ofts')" and Y: "\<forall>e x. r = Some (e, x) \<longrightarrow> (\<exists>f. R e f)"
    by blast+
  from read_loop_handle[OF lp] have h': "ofts' = h\<lparr>ofts_fts := ofts_fts ofts'\<rparr>" by simp
  show ?case
  proof (cases r)
    case None
    with Suc.prems lp show ?thesis by simp
  next
    case (Some ex)
    with Suc.prems(2) lp obtain ys where
      ys: "oval_fts_walk env n ofts' = Some ys" and xs: "xs = ex # ys"
      by auto
    show ?thesis
    proof (cases "(e, x) = ex")
      case True
      with Some Y show ?thesis by auto
    next
      case False
      with Suc.prems(3) xs have m: "(e, x) \<in> set ys" by simp
      from ys h' have "oval_fts_walk env n (h\<lparr>ofts_fts := ofts_fts ofts'\<rparr>) = Some ys" by simp
      from Suc.IH[OF I' this m] show ?thesis .
    qed
  qed
qed

lemma depth_next:
  assumes "list_all (\<lambda>i. item_level i \<le> K) items" and "tree_fts_next s items = (r, s')"
  shows "depth_ret K s' \<and> (case r of None \<Rightarrow> t_cur s' = None | Some e \<Rightarrow> (\<exists>n. t_cur s' = Some (e, n)))"
proof (cases items)
  case Nil
  with assms show ?thesis by (auto simp: tree_fts_next_def depth_ret_def)
next
  case (Cons i rest)
  with assms show ?thesis
    by (cases i) (auto simp: tree_fts_next_def depth_ret_def)
qed

lemma depth_read:
  assumes "depth_inv K s" and "tree_fts_read s = (r, s')"
  shows "depth_ret K s' \<and> (case r of None \<Rightarrow> t_cur s' = None | Some e \<Rightarrow> (\<exists>n. t_cur s' = Some (e, n)))"
proof (cases "t_cur s")
  case None
  with assms have "tree_fts_next s (t_todo s) = (r, s')" by (simp add: tree_fts_read_def)
  moreover from assms(1) have "list_all (\<lambda>i. item_level i \<le> K) (t_todo s)"
    by (simp add: depth_inv_def depth_ret_def)
  ultimately show ?thesis by (rule depth_next[rotated])
next
  case (Some c)
  obtain e n where c: "c = (e, n)" by (cases c)
  from assms(1) Some c have lv: "fts_level e \<le> K"
    and todo: "list_all (\<lambda>i. item_level i \<le> K) (t_todo s)"
    and sk: "fts_info e = FTS_D \<Longrightarrow> K \<le> fts_level e \<Longrightarrow> t_instr s = Some FTS_SKIP"
    by (auto simp: depth_inv_def depth_ret_def)
  consider (follow) "t_instr s = Some FTS_FOLLOW \<and> (fts_info e = FTS_SL \<or> fts_info e = FTS_SLNONE)"
    | (post) "\<not> (t_instr s = Some FTS_FOLLOW \<and> (fts_info e = FTS_SL \<or> fts_info e = FTS_SLNONE))"
        "fts_info e = FTS_D" "t_instr s = Some FTS_SKIP \<or> (t_xdev s \<and> fts_statp e \<noteq> t_dev s)"
    | (descend) "\<not> (t_instr s = Some FTS_FOLLOW \<and> (fts_info e = FTS_SL \<or> fts_info e = FTS_SLNONE))"
        "fts_info e = FTS_D" "\<not> (t_instr s = Some FTS_SKIP \<or> (t_xdev s \<and> fts_statp e \<noteq> t_dev s))"
    | (other) "\<not> (t_instr s = Some FTS_FOLLOW \<and> (fts_info e = FTS_SL \<or> fts_info e = FTS_SLNONE))"
        "fts_info e \<noteq> FTS_D"
    by blast
  then show ?thesis
  proof cases
    case follow
    with assms(2) Some c lv todo show ?thesis
      by (auto simp: tree_fts_read_def Let_def depth_ret_def)
  next
    case post
    with assms(2) Some c lv todo show ?thesis
      by (auto simp: tree_fts_read_def Let_def depth_ret_def)
  next
    case descend
    with sk have "fts_level e < K" by force
    then have "list_all (\<lambda>i. item_level i \<le> K)
                 (map (\<lambda>c. Pre (child_ent e c) (snd c)) (dir_entries n) @ Post e # t_todo s)"
      using todo lv by (auto simp: list_all_iff child_ent_def)
    moreover from descend assms(2) Some c
    have "tree_fts_next s (map (\<lambda>c. Pre (child_ent e c) (snd c)) (dir_entries n) @ Post e # t_todo s)
            = (r, s')"
      by (auto simp: tree_fts_read_def)
    ultimately show ?thesis by (rule depth_next)
  next
    case other
    with assms(2) Some c have "tree_fts_next s (t_todo s) = (r, s')"
      by (auto simp: tree_fts_read_def)
    with todo show ?thesis by (rule depth_next)
  qed
qed

lemma depth_body:
  assumes "direction h = OVAL_RECURSE_DIRECTION_DOWN" and "0 \<le> max_depth h"
    and "ofts_path_regex h = None"
    and "depth_ret (max_depth h + 1) f" and "t_cur f = Some (e, n)"
  shows "depth_inv (max_depth h + 1)
           (turn_fts (oval_fts_read_body (tree_env fs base) (h\<lparr>ofts_fts := f\<rparr>) e))"
proof -
  have set: "tree_fts_set f e i = f\<lparr> t_instr := Some i \<rparr>" for i
    using assms(5) by (rule tree_fts_set_cur)
  have set2: "tree_fts_set (f\<lparr> t_instr := Some j \<rparr>) e i = f\<lparr> t_instr := Some i \<rparr>" for i j
    using assms(5) by (simp add: tree_fts_set_def)
  from assms(4,5) have base: "depth_ret (max_depth h + 1) (f\<lparr> t_instr := x \<rparr>)" for x
    by (simp add: depth_ret_def)
  have keep: "depth_inv (max_depth h + 1) (f\<lparr> t_instr := x \<rparr>)"
    if "fts_info e = FTS_D \<and> max_depth h + 1 \<le> fts_level e \<longrightarrow> x = Some FTS_SKIP" for x
    using that base[of x] assms(5) by (simp add: depth_inv_def depth_ret_def)
  have same: "f\<lparr> t_instr := t_instr f \<rparr> = f" by simp
  show ?thesis
  proof (cases "fts_info e = FTS_DP \<or> fts_info e = FTS_DC")
    case True
    with keep[of "t_instr f"] assms(3) show ?thesis
      by (auto simp: body_no_regex)
  next
    case False
    have "depth_inv (max_depth h + 1) (oval_fts_read_steer (tree_env fs base) (h\<lparr>ofts_fts := f\<rparr>) e)"
      using assms(1,2) keep[of "t_instr f"] keep[of "Some FTS_SKIP"] keep[of "Some FTS_FOLLOW"]
      by (auto simp: oval_fts_read_steer_def oval_fts_read_localfs_def Let_def set set2
            OVAL_RECURSE_DIRECTION_NONE_def OVAL_RECURSE_DIRECTION_DOWN_def
          split: fts_tag.splits)
    with False assms(3) show ?thesis by (simp add: body_no_regex)
  qed
qed

lemma depth_open:
  assumes "tree_fts_open fs paths opts = Some s" and "0 \<le> K"
  shows "depth_inv K s"
  using assms
  by (auto simp: tree_fts_open_def depth_inv_def depth_ret_def list_all_iff root_ent_def
      split: if_splits)

lemma skip_next:
  assumes "tree_fts_next s items = (r, s')"
  shows "t_instr s' = None
       \<and> (case r of
            None \<Rightarrow> t_cur s' = None \<and> items = [] \<and> t_todo s' = []
          | Some e \<Rightarrow> (\<exists>n. t_cur s' = Some (e, n)) \<and> length (t_todo s') < length items)"
proof (cases items)
  case Nil
  with assms show ?thesis by (auto simp: tree_fts_next_def)
next
  case (Cons i rest)
  with assms show ?thesis by (cases i) (auto simp: tree_fts_next_def)
qed

lemma skip_read:
  assumes "skip_inv s" and "tree_fts_read s = (r, s')"
  shows "t_instr s' = None \<and> length (t_todo s') \<le> length (t_todo s)
       \<and> (case r of
            None \<Rightarrow> t_cur s' = None
          | Some e \<Rightarrow> (\<exists>n. t_cur s' = Some (e, n))
                      \<and> (fts_info e = FTS_DP \<or> length (t_todo s') < length (t_todo s)))"
proof (cases "t_cur s")
  case None
  with assms(2) have "tree_fts_next s (t_todo s) = (r, s')" by (simp add: tree_fts_read_def)
  from skip_next[OF this] show ?thesis by (cases r) auto
next
  case (Some c)
  obtain e n where c: "c = (e, n)" by (cases c)
  from assms(1) Some c have nf: "t_instr s \<noteq> Some FTS_FOLLOW"
    and sk: "fts_info e = FTS_D \<Longrightarrow> t_instr s = Some FTS_SKIP"
    by (auto simp: skip_inv_def)
  show ?thesis
  proof (cases "fts_info e = FTS_D")
    case True
    with sk nf assms(2) Some c show ?thesis
      by (auto simp: tree_fts_read_def)
  next
    case False
    with nf assms(2) Some c have "tree_fts_next s (t_todo s) = (r, s')"
      by (auto simp: tree_fts_read_def)
    from skip_next[OF this] show ?thesis by (cases r) auto
  qed
qed

lemma skip_body:
  assumes "direction h = OVAL_RECURSE_DIRECTION_NONE"
    and "ofts_path_op h = OVAL_OPERATION_EQUALS"
    and "ofts_sfilename h = None" and "ofts_sfilepath h = None"
    and "ofts_path_regex h = None"
    and "t_cur f = Some (e, n)" and "t_instr f = None"
  shows "skip_inv (turn_fts (oval_fts_read_body (tree_env fs base) (h\<lparr>ofts_fts := f\<rparr>) e))"
    and "t_todo (turn_fts (oval_fts_read_body (tree_env fs base) (h\<lparr>ofts_fts := f\<rparr>) e)) = t_todo f"
proof -
  have st: "oval_fts_read_steer (tree_env fs base) (h\<lparr>ofts_fts := f\<rparr>) e = f\<lparr> t_instr := Some FTS_SKIP \<rparr>"
    using assms(1-4) tree_fts_set_cur[OF assms(6)]
    by (simp add: oval_fts_read_steer_def Let_def)
  have t: "turn_fts (oval_fts_read_body (tree_env fs base) (h\<lparr>ofts_fts := f\<rparr>) e)
             = (if fts_info e = FTS_DP \<or> fts_info e = FTS_DC then f else f\<lparr> t_instr := Some FTS_SKIP \<rparr>)"
    using assms(5) st by (simp add: body_no_regex)
  show "skip_inv (turn_fts (oval_fts_read_body (tree_env fs base) (h\<lparr>ofts_fts := f\<rparr>) e))"
    using assms(6,7) unfolding t by (auto simp: skip_inv_def)
  show "t_todo (turn_fts (oval_fts_read_body (tree_env fs base) (h\<lparr>ofts_fts := f\<rparr>) e)) = t_todo f"
    unfolding t by simp
qed

lemma skip_loop:
  assumes "direction h = OVAL_RECURSE_DIRECTION_NONE"
    and "ofts_path_op h = OVAL_OPERATION_EQUALS"
    and "ofts_sfilename h = None" and "ofts_sfilepath h = None"
    and "ofts_path_regex h = None"
  shows "skip_inv g \<Longrightarrow>
         oval_fts_read_loop (tree_env fs base) n (h\<lparr>ofts_fts := g\<rparr>) = Some (r, ofts') \<Longrightarrow>
           skip_inv (ofts_fts ofts')
         \<and> length (t_todo (ofts_fts ofts')) \<le> length (t_todo g)
         \<and> (r \<noteq> None \<longrightarrow> length (t_todo (ofts_fts ofts')) < length (t_todo g))"
proof (induction n arbitrary: g)
  case 0
  then show ?case by simp
next
  case (Suc n)
  obtain r1 f where r1: "tree_fts_read g = (r1, f)" by (cases "tree_fts_read g")
  note rd = skip_read[OF Suc.prems(1) r1]
  show ?case
  proof (cases r1)
    case None
    with rd Suc.prems(2) r1 show ?thesis by (auto simp: skip_inv_def)
  next
    case (Some e1)
    with rd obtain n1 where cur: "t_cur f = Some (e1, n1)" and ins: "t_instr f = None"
      and le: "length (t_todo f) \<le> length (t_todo g)"
      and lt: "fts_info e1 = FTS_DP \<or> length (t_todo f) < length (t_todo g)"
      by auto
    note b = skip_body[OF assms cur ins, of fs base]
    show ?thesis
    proof (cases "oval_fts_read_body (tree_env fs base) (h\<lparr>ofts_fts := f\<rparr>) e1")
      case (Continue f')
      with b have I': "skip_inv f'" and td: "t_todo f' = t_todo f" by simp_all
      from Continue Suc.prems(2) r1 Some
      have "oval_fts_read_loop (tree_env fs base) n (h\<lparr>ofts_fts := f'\<rparr>) = Some (r, ofts')" by simp
      from Suc.IH[OF I' this] td le show ?thesis by auto
    next
      case (Emit y f')
      with b have I': "skip_inv f'" and td: "t_todo f' = t_todo f" by simp_all
      from read_body_Emit(3)[OF Emit] lt have "length (t_todo f) < length (t_todo g)" by simp
      with Emit Suc.prems(2) r1 Some I' td show ?thesis by auto
    next
      case (Abort f')
      with b have I': "skip_inv f'" and td: "t_todo f' = t_todo f" by simp_all
      with Abort Suc.prems(2) r1 Some le show ?thesis by auto
    qed
  qed
qed

lemma skip_walk:
  assumes "direction h = OVAL_RECURSE_DIRECTION_NONE"
    and "ofts_path_op h = OVAL_OPERATION_EQUALS"
    and "ofts_sfilename h = None" and "ofts_sfilepath h = None"
    and "ofts_path_regex h = None"
  shows "skip_inv g \<Longrightarrow> oval_fts_walk (tree_env fs base) n (h\<lparr>ofts_fts := g\<rparr>) = Some xs \<Longrightarrow>
           length xs \<le> length (t_todo g)"
proof (induction n arbitrary: g xs)
  case 0
  then show ?case by simp
next
  case (Suc n)
  from Suc.prems(2) obtain r ofts' where
    lp: "oval_fts_read_loop (tree_env fs base) (Suc n) (h\<lparr>ofts_fts := g\<rparr>) = Some (r, ofts')"
    by (cases "oval_fts_read_loop (tree_env fs base) (Suc n) (h\<lparr>ofts_fts := g\<rparr>)") auto
  note l = skip_loop[OF assms Suc.prems(1) lp]
  from read_loop_handle[OF lp] have h': "ofts' = h\<lparr>ofts_fts := ofts_fts ofts'\<rparr>" by simp
  show ?case
  proof (cases r)
    case None
    with Suc.prems(2) lp show ?thesis by simp
  next
    case (Some ex)
    with Suc.prems(2) lp obtain ys where
      ys: "oval_fts_walk (tree_env fs base) n ofts' = Some ys" and xs: "xs = ex # ys"
      by auto
    from ys h' have "oval_fts_walk (tree_env fs base) n (h\<lparr>ofts_fts := ofts_fts ofts'\<rparr>) = Some ys"
      by simp
    from Suc.IH[OF _ this] l have "length ys \<le> length (t_todo (ofts_fts ofts'))" by simp
    with l Some xs show ?thesis by simp
  qed
qed

lemma skip_open:
  assumes "tree_fts_open fs paths opts = Some s"
  shows "skip_inv s" and "length (t_todo s) = length paths"
  using assms
  by (auto simp: tree_fts_open_def skip_inv_def split: if_splits)

lemma open_regex_no_devset:
  assumes "oval_fts_open_regex env s ofts live = Some (ofts', live')"
    and "RES_localdevs \<notin> set live"
  shows "RES_localdevs \<notin> set live'"
  using assms
  by (auto simp: oval_fts_open_regex_def Let_def split: option.splits if_splits)

lemma open_filepath_no_devset:
  assumes "oval_fts_open env None fn fp bh = Opened ofts live"
  shows "RES_localdevs \<notin> set live"
proof -
  from open_Opened(1)[OF assms] obtain l where
    h: "oval_fts_open_handle env None fn fp (oval_fts_open_path_op None fp) l = Opened ofts live"
    by blast
  from open_handle_mid[OF h] obtain ofts0 ofts2 live2 where
    mid: "if oval_fts_open_path_op None fp = OVAL_OPERATION_PATTERN_MATCH then
            oval_fts_open_regex env (l_cstr_path l)
              (ofts0\<lparr> ofts_st_path :=
                        [if oval_fts_open_path_op None fp = OVAL_OPERATION_EQUALS
                         then l_cstr_path l else ''/''],
                      ofts_st_path_count := 1, ofts_st_path_index := 0,
                      ofts_path_op := oval_fts_open_path_op None fp \<rparr>)
              [RES_fts, RES_ofts, RES_paths0, RES_paths] = Some (ofts2, live2)
          else
            ofts2 = ofts0\<lparr> ofts_st_path :=
                        [if oval_fts_open_path_op None fp = OVAL_OPERATION_EQUALS
                         then l_cstr_path l else ''/''],
                      ofts_st_path_count := 1, ofts_st_path_index := 0,
                      ofts_path_op := oval_fts_open_path_op None fp \<rparr>
            \<and> live2 = [RES_fts, RES_ofts, RES_paths0, RES_paths]"
    and fin: "oval_fts_open_finish env None fn fp l ofts2 live2 = Opened ofts live"
    by blast
  have "RES_localdevs \<notin> set live2"
  proof (cases "oval_fts_open_path_op None fp = OVAL_OPERATION_PATTERN_MATCH")
    case True
    with mid have "oval_fts_open_regex env (l_cstr_path l)
              (ofts0\<lparr> ofts_st_path :=
                        [if oval_fts_open_path_op None fp = OVAL_OPERATION_EQUALS
                         then l_cstr_path l else ''/''],
                      ofts_st_path_count := 1, ofts_st_path_index := 0,
                      ofts_path_op := oval_fts_open_path_op None fp \<rparr>)
              [RES_fts, RES_ofts, RES_paths0, RES_paths] = Some (ofts2, live2)" by simp
    then show ?thesis by (rule open_regex_no_devset) simp
  next
    case False
    with mid show ?thesis by simp
  qed
  with open_finish_filepath(2)[OF fin] show ?thesis by simp
qed

lemma open_driver:
  assumes "oval_fts_open env p fn fp bh = Opened ofts live"
  shows "\<exists>fts_options. fts_open env (ofts_st_path ofts) fts_options = Some (ofts_fts ofts)"
proof -
  from open_Opened(1)[OF assms] obtain l where
    "oval_fts_open_handle env p fn fp (oval_fts_open_path_op p fp) l = Opened ofts live"
    by blast
  from open_handle_roots(4)[OF this] show ?thesis by blast
qed

lemma opened_handle_Some:
  "opened_handle r = Some ofts \<Longrightarrow> \<exists>live. r = Opened ofts live"
  by (cases r) auto

lemma sample_env_tree [simp]:
  "sample_env fs = tree_env fs sample_base"
  by (simp add: sample_env_def)

text \<open>The tree driver does not descend into a directory that was told to skip.\<close>

lemma tree_skip_not_entered:
  assumes "t_cur s = Some (e, n)" and "fts_info e = FTS_D"
  shows "fst (tree_fts_read (tree_fts_set s e FTS_SKIP)) = Some (e\<lparr> fts_info := FTS_DP \<rparr>)"
  using assms by (simp add: tree_fts_set_def tree_fts_read_def)

text \<open>The invariant of the local filesystems.\<close>

lemma local_next:
  assumes "list_all (\<lambda>i. local_item devs fm (item_ent i)) items"
    and "tree_fts_next s items = (r, s')"
  shows "local_ret devs fm s'
       \<and> (case r of None \<Rightarrow> t_cur s' = None | Some e \<Rightarrow> (\<exists>n. t_cur s' = Some (e, n)))"
proof (cases items)
  case Nil
  with assms show ?thesis by (auto simp: tree_fts_next_def local_ret_def)
next
  case (Cons i rest)
  with assms show ?thesis
    by (cases i) (auto simp: tree_fts_next_def local_ret_def local_item_def in_local_dir_def)
qed

lemma local_read:
  assumes "local_inv devs fm s" and "tree_fts_read s = (r, s')"
  shows "local_ret devs fm s'
       \<and> (case r of None \<Rightarrow> t_cur s' = None | Some e \<Rightarrow> (\<exists>n. t_cur s' = Some (e, n)))"
proof (cases "t_cur s")
  case None
  with assms have "tree_fts_next s (t_todo s) = (r, s')" by (simp add: tree_fts_read_def)
  moreover from assms(1) have "list_all (\<lambda>i. local_item devs fm (item_ent i)) (t_todo s)"
    by (simp add: local_inv_def local_ret_def)
  ultimately show ?thesis by (rule local_next[rotated])
next
  case (Some c)
  obtain e n where c: "c = (e, n)" by (cases c)
  from assms(1) Some c have it: "local_item devs fm e"
    and todo: "list_all (\<lambda>i. local_item devs fm (item_ent i)) (t_todo s)"
    and sk: "fts_info e = FTS_D \<Longrightarrow> t_instr s \<noteq> Some FTS_SKIP \<Longrightarrow>
               (fts_level e = 0 \<and> fm) \<or> dev_local devs (fts_statp e)"
    by (auto simp: local_inv_def local_ret_def)
  consider (follow) "t_instr s = Some FTS_FOLLOW \<and> (fts_info e = FTS_SL \<or> fts_info e = FTS_SLNONE)"
    | (post) "\<not> (t_instr s = Some FTS_FOLLOW \<and> (fts_info e = FTS_SL \<or> fts_info e = FTS_SLNONE))"
        "fts_info e = FTS_D" "t_instr s = Some FTS_SKIP \<or> (t_xdev s \<and> fts_statp e \<noteq> t_dev s)"
    | (descend) "\<not> (t_instr s = Some FTS_FOLLOW \<and> (fts_info e = FTS_SL \<or> fts_info e = FTS_SLNONE))"
        "fts_info e = FTS_D" "\<not> (t_instr s = Some FTS_SKIP \<or> (t_xdev s \<and> fts_statp e \<noteq> t_dev s))"
    | (other) "\<not> (t_instr s = Some FTS_FOLLOW \<and> (fts_info e = FTS_SL \<or> fts_info e = FTS_SLNONE))"
        "fts_info e \<noteq> FTS_D"
    by blast
  then show ?thesis
  proof cases
    case follow
    with assms(2) Some c it todo show ?thesis
      by (auto simp: tree_fts_read_def Let_def local_ret_def local_item_def in_local_dir_def)
  next
    case post
    with assms(2) Some c it todo show ?thesis
      by (auto simp: tree_fts_read_def Let_def local_ret_def local_item_def in_local_dir_def)
  next
    case descend
    with sk have par: "(fts_level e = 0 \<and> fm) \<or> dev_local devs (fts_statp e)" by auto
    have "local_item devs fm (child_ent e c)" for c
      using par by (auto simp: local_item_def in_local_dir_def child_ent_def)
    then have "list_all (\<lambda>i. local_item devs fm (item_ent i))
                 (map (\<lambda>c. Pre (child_ent e c) (snd c)) (dir_entries n) @ Post e # t_todo s)"
      using todo it by (auto simp: list_all_iff)
    moreover from descend assms(2) Some c
    have "tree_fts_next s (map (\<lambda>c. Pre (child_ent e c) (snd c)) (dir_entries n) @ Post e # t_todo s)
            = (r, s')"
      by (auto simp: tree_fts_read_def)
    ultimately show ?thesis by (rule local_next)
  next
    case other
    with assms(2) Some c have "tree_fts_next s (t_todo s) = (r, s')"
      by (auto simp: tree_fts_read_def)
    with todo show ?thesis by (rule local_next)
  qed
qed

lemma localp_dev_local:
  assumes "localdevs h = Some devs" and "fts_statp e \<noteq> None"
  shows "OVAL_FTS_localp env h (Some (fts_path e)) (fts_statp e) = dev_local devs (fts_statp e)"
  using assms by (auto simp: OVAL_FTS_localp_def fsdev_search_def dev_local_def split: if_splits)

lemma local_body:
  assumes "direction h = OVAL_RECURSE_DIRECTION_DOWN"
    and "filesystem h = OVAL_RECURSE_FS_LOCAL" and "localdevs h = Some devs"
    and "ofts_path_regex h = None"
    and "local_ret devs (ofts_sfilename h \<noteq> None) f" and "t_cur f = Some (e, n)"
  shows "local_inv devs (ofts_sfilename h \<noteq> None)
           (turn_fts (oval_fts_read_body (tree_env fs base) (h\<lparr>ofts_fts := f\<rparr>) e))"
proof -
  let ?fm = "ofts_sfilename h \<noteq> None"
  have set: "tree_fts_set f e i = f\<lparr> t_instr := Some i \<rparr>" for i
    using assms(6) by (rule tree_fts_set_cur)
  have set2: "tree_fts_set (f\<lparr> t_instr := Some j \<rparr>) e i = f\<lparr> t_instr := Some i \<rparr>" for i j
    using assms(6) by (simp add: tree_fts_set_def)
  from assms(5,6) have base: "local_ret devs ?fm (f\<lparr> t_instr := x \<rparr>)" for x
    by (simp add: local_ret_def)
  from assms(5,6) have st: "fts_info e = FTS_D \<Longrightarrow> fts_statp e \<noteq> None"
    by (simp add: local_ret_def local_item_def)
  have keep: "local_inv devs ?fm (f\<lparr> t_instr := x \<rparr>)"
    if "fts_info e = FTS_D \<and> \<not> (fts_level e = 0 \<and> ?fm) \<and> \<not> dev_local devs (fts_statp e)
          \<longrightarrow> x = Some FTS_SKIP" for x
    using that base[of x] assms(6) by (simp add: local_inv_def local_ret_def)
  have same: "f\<lparr> t_instr := t_instr f \<rparr> = f" by simp
  have lp: "fts_info e = FTS_D \<Longrightarrow>
              OVAL_FTS_localp (tree_env fs base) (h\<lparr>ofts_fts := f\<rparr>) (Some (fts_path e)) (fts_statp e)
                = dev_local devs (fts_statp e)"
    using localp_dev_local[of "h\<lparr>ofts_fts := f\<rparr>" devs e] assms(3) st by simp
  show ?thesis
  proof (cases "fts_info e = FTS_DP \<or> fts_info e = FTS_DC")
    case True
    with keep[of "t_instr f"] assms(4) show ?thesis
      by (auto simp: body_no_regex)
  next
    case False
    have "local_inv devs ?fm (oval_fts_read_steer (tree_env fs base) (h\<lparr>ofts_fts := f\<rparr>) e)"
    proof (cases "fts_info e = FTS_D")
      case True
      then show ?thesis
        using assms(1,2) keep[of "t_instr f"] keep[of "Some FTS_SKIP"] lp
        by (auto simp: oval_fts_read_steer_def oval_fts_read_localfs_def Let_def set
              OVAL_RECURSE_DIRECTION_NONE_def OVAL_RECURSE_DIRECTION_DOWN_def)
    next
      case nd: False
      have any: "local_inv devs ?fm (f\<lparr> t_instr := x \<rparr>)" for x
        using keep[of x] nd by simp
      have any0: "local_inv devs ?fm f" using any[of "t_instr f"] by simp
      show ?thesis
        using assms(1) any any0
        by (auto simp: oval_fts_read_steer_def oval_fts_read_localfs_def Let_def set set2
              OVAL_RECURSE_DIRECTION_NONE_def OVAL_RECURSE_DIRECTION_DOWN_def
            split: fts_tag.splits)
    qed
    with False assms(4) show ?thesis by (simp add: body_no_regex)
  qed
qed

lemma local_open:
  assumes "tree_fts_open fs paths opts = Some s"
  shows "local_inv devs fm s"
  using assms
  by (auto simp: tree_fts_open_def local_inv_def local_ret_def list_all_iff root_ent_def
        local_item_def in_local_dir_def split: if_splits option.splits)

text \<open>The count for the direction \<open>none\<close> with a filename entity.\<close>

lemma none_next:
  assumes ok: "list_all (item_ok Y) items" and nx: "tree_fts_next s items = (r, s')"
    and Yfile: "\<And>e. Y e \<Longrightarrow> file_tag (fts_info e)"
  shows "none_ret Y s' \<and> t_instr s' = None
       \<and> (case r of
            None \<Rightarrow> t_cur s' = None \<and> budget Y s' \<le> sum_list (map (item_weight Y) items)
          | Some e \<Rightarrow> (\<exists>n. t_cur s' = Some (e, n))
                      \<and> budget Y s' + (if Y e then 1 else 0) \<le> sum_list (map (item_weight Y) items))"
proof (cases items)
  case Nil
  with assms show ?thesis
    by (auto simp: tree_fts_next_def none_ret_def budget_def cur_weight_def)
next
  case (Cons i rest)
  show ?thesis
  proof (cases i)
    case (Pre e n)
    with Cons ok have lv: "0 \<le> fts_level e"
      and cnt: "fts_level e = 0 \<Longrightarrow> length (filter (\<lambda>c. Y (child_ent e c)) (dir_entries n)) \<le> 1"
      and rest: "list_all (item_ok Y) rest" by auto
    from Pre Cons nx have r: "r = Some e"
      and s': "s' = s\<lparr> t_cur := Some (e, n), t_instr := None, t_todo := rest,
                       t_dev := (if fts_level e = 0 then fts_statp e else t_dev s) \<rparr>"
      by (auto simp: tree_fts_next_def)
    have nD: "Y e \<Longrightarrow> fts_info e \<noteq> FTS_D" using Yfile[of e] by (auto simp: file_tag_def)
    show ?thesis
      using lv cnt rest nD unfolding r s' Cons Pre
      by (auto simp: none_ret_def budget_def cur_weight_def)
  next
    case (Post e)
    with Cons ok have rest: "list_all (item_ok Y) rest" and lv: "0 \<le> fts_level e" by auto
    from Post Cons nx have r: "r = Some (e\<lparr> fts_info := FTS_DP \<rparr>)"
      and s': "s' = s\<lparr> t_cur := Some (e\<lparr> fts_info := FTS_DP \<rparr>, FsFile 0), t_instr := None,
              t_todo := rest \<rparr>"
      by (auto simp: tree_fts_next_def)
    have nY: "\<not> Y (e\<lparr> fts_info := FTS_DP \<rparr>)" using Yfile[of "e\<lparr> fts_info := FTS_DP \<rparr>"]
      by (auto simp: file_tag_def)
    show ?thesis
      using rest nY lv unfolding r s' Cons Post
      by (auto simp: none_ret_def budget_def cur_weight_def)
  qed
qed


lemma none_read:
  assumes inv: "none_inv Y s" and rd: "tree_fts_read s = (r, s')"
    and Yfile: "\<And>e. Y e \<Longrightarrow> file_tag (fts_info e)"
  shows "none_ret Y s' \<and> t_instr s' = None
       \<and> (case r of
            None \<Rightarrow> t_cur s' = None \<and> budget Y s' \<le> budget Y s
          | Some e \<Rightarrow> (\<exists>n. t_cur s' = Some (e, n))
                      \<and> budget Y s' + (if Y e then 1 else 0) \<le> budget Y s)"
proof -
  from inv have todo: "list_all (item_ok Y) (t_todo s)" and nf: "t_instr s \<noteq> Some FTS_FOLLOW"
    by (auto simp: none_inv_def none_ret_def)
  have le: "sum_list (map (item_weight Y) (t_todo s)) \<le> budget Y s" by (simp add: budget_def)
  have via_todo: ?thesis if "tree_fts_next s (t_todo s) = (r, s')"
    using none_next[OF todo that Yfile] le by (cases r) auto
  show ?thesis
  proof (cases "t_cur s")
    case None
    with rd have "tree_fts_next s (t_todo s) = (r, s')" by (simp add: tree_fts_read_def)
    then show ?thesis by (rule via_todo)
  next
    case (Some c)
    obtain e n where c: "c = (e, n)" by (cases c)
    from inv Some c have lv: "0 \<le> fts_level e"
      and sk: "fts_info e = FTS_D \<Longrightarrow> fts_level e \<noteq> 0 \<Longrightarrow> t_instr s = Some FTS_SKIP"
      by (auto simp: none_inv_def none_ret_def)
    consider (post) "fts_info e = FTS_D"
        "t_instr s = Some FTS_SKIP \<or> (t_xdev s \<and> fts_statp e \<noteq> t_dev s)"
      | (descend) "fts_info e = FTS_D"
        "\<not> (t_instr s = Some FTS_SKIP \<or> (t_xdev s \<and> fts_statp e \<noteq> t_dev s))"
      | (other) "fts_info e \<noteq> FTS_D"
      by blast
    then show ?thesis
    proof cases
      case post
      have nY: "\<not> Y (e\<lparr> fts_info := FTS_DP \<rparr>)" using Yfile[of "e\<lparr> fts_info := FTS_DP \<rparr>"]
        by (auto simp: file_tag_def)
      from post rd Some c nf have r: "r = Some (e\<lparr> fts_info := FTS_DP \<rparr>)"
        and s': "s' = s\<lparr> t_cur := Some (e\<lparr> fts_info := FTS_DP \<rparr>, FsFile 0), t_instr := None \<rparr>"
        by (auto simp: tree_fts_read_def)
      show ?thesis using todo lv nY unfolding r s'
        by (auto simp: none_ret_def budget_def cur_weight_def)
    next
      case descend
      with sk have l0: "fts_level e = 0" by auto
      let ?items = "map (\<lambda>c. Pre (child_ent e c) (snd c)) (dir_entries n) @ Post e # t_todo s"
      have lvc: "fts_level (child_ent e c) = 1" for c using l0 by (simp add: child_ent_def)
      have ok: "list_all (item_ok Y) ?items"
        using todo lv lvc by (auto simp: list_all_iff)
      have w: "sum_list (map (item_weight Y) (map (\<lambda>c. Pre (child_ent e c) (snd c)) cs))
                 = length (filter (\<lambda>c. Y (child_ent e c)) cs)" for cs
        by (induction cs) (auto simp: lvc)
      have sm: "sum_list (map (item_weight Y) ?items) = budget Y s"
        using descend l0 Some c w[of "dir_entries n"] by (simp add: budget_def cur_weight_def)
      from descend rd Some c nf have "tree_fts_next s ?items = (r, s')"
        by (auto simp: tree_fts_read_def)
      from none_next[OF ok this Yfile] sm show ?thesis by (cases r) auto
    next
      case other
      with rd Some c nf have "tree_fts_next s (t_todo s) = (r, s')"
        by (auto simp: tree_fts_read_def)
      then show ?thesis by (rule via_todo)
    qed
  qed
qed

lemma tree_env_cmp [simp]:
  "probe_entobj_cmp (tree_env fs base) = probe_entobj_cmp base"
  by (simp add: tree_env_def)

lemma none_body:
  assumes dir: "direction h = OVAL_RECURSE_DIRECTION_NONE"
    and op: "ofts_path_op h = OVAL_OPERATION_EQUALS"
    and fn: "ofts_sfilename h \<noteq> None" and fp: "ofts_sfilepath h = None"
    and re: "ofts_path_regex h = None"
    and ret: "none_ret Y f" and cur: "t_cur f = Some (e, n)" and ins: "t_instr f = None"
    and Y: "Y = name_accepted (probe_entobj_cmp base) (ofts_sfilename h)"
  shows "none_inv Y (turn_fts (oval_fts_read_body (tree_env fs base) (h\<lparr>ofts_fts := f\<rparr>) e))"
    and "budget Y (turn_fts (oval_fts_read_body (tree_env fs base) (h\<lparr>ofts_fts := f\<rparr>) e))
           = budget Y f"
    and "oval_fts_read_body (tree_env fs base) (h\<lparr>ofts_fts := f\<rparr>) e = Emit x f' \<Longrightarrow> Y e"
proof -
  let ?b = "oval_fts_read_body (tree_env fs base) (h\<lparr>ofts_fts := f\<rparr>) e"
  from ret cur have lv: "0 \<le> fts_level e" by (simp add: none_ret_def)
  have st: "oval_fts_read_steer (tree_env fs base) (h\<lparr>ofts_fts := f\<rparr>) e
              = (if fts_level e > 0 then f\<lparr> t_instr := Some FTS_SKIP \<rparr> else f)"
    using dir op fn fp tree_fts_set_cur[OF cur]
    by (auto simp: oval_fts_read_steer_def Let_def)
  have t: "turn_fts ?b
             = (if fts_info e = FTS_DP \<or> fts_info e = FTS_DC then f
                else if fts_level e > 0 then f\<lparr> t_instr := Some FTS_SKIP \<rparr> else f)"
    using re st by (simp add: body_no_regex)
  show "none_inv Y (turn_fts ?b)"
    using ret cur ins lv unfolding t by (auto simp: none_inv_def none_ret_def)
  show "budget Y (turn_fts ?b) = budget Y f"
    using cur unfolding t by (auto simp: budget_def cur_weight_def)
  show "Y e" if "?b = Emit x f'"
  proof -
    from read_body_Emit[OF that] have m: "oval_fts_read_match (tree_env fs base) h e = Some x"
      and dp: "fts_info e \<noteq> FTS_DP" "fts_info e \<noteq> FTS_DC" by simp_all
    from m fn fp op dp show ?thesis unfolding Y
      by (auto simp: oval_fts_read_match_def Let_def name_accepted_def file_tag_def
          split: if_splits)
  qed
qed

lemma none_loop:
  assumes dir: "direction h = OVAL_RECURSE_DIRECTION_NONE"
    and op: "ofts_path_op h = OVAL_OPERATION_EQUALS"
    and fn: "ofts_sfilename h \<noteq> None" and fp: "ofts_sfilepath h = None"
    and re: "ofts_path_regex h = None"
    and Y: "Y = name_accepted (probe_entobj_cmp base) (ofts_sfilename h)"
  shows "none_inv Y g \<Longrightarrow>
         oval_fts_read_loop (tree_env fs base) n (h\<lparr>ofts_fts := g\<rparr>) = Some (r, ofts') \<Longrightarrow>
           none_inv Y (ofts_fts ofts')
         \<and> budget Y (ofts_fts ofts') + (if r = None then 0 else 1) \<le> budget Y g"
proof (induction n arbitrary: g)
  case 0
  then show ?case by simp
next
  case (Suc n)
  have Yfile: "\<And>e. Y e \<Longrightarrow> file_tag (fts_info e)" unfolding Y by (simp add: name_accepted_def)
  obtain r1 f where r1: "tree_fts_read g = (r1, f)" by (cases "tree_fts_read g")
  note rd = none_read[OF Suc.prems(1) r1 Yfile]
  show ?case
  proof (cases r1)
    case None
    with rd Suc.prems(2) r1 show ?thesis by (auto simp: none_inv_def)
  next
    case (Some e1)
    with rd obtain n1 where ret: "none_ret Y f" and cur: "t_cur f = Some (e1, n1)"
      and ins: "t_instr f = None"
      and bu: "budget Y f + (if Y e1 then 1 else 0) \<le> budget Y g"
      by auto
    note b = none_body[OF dir op fn fp re ret cur ins Y, of fs]
    show ?thesis
    proof (cases "oval_fts_read_body (tree_env fs base) (h\<lparr>ofts_fts := f\<rparr>) e1")
      case (Continue f')
      with b(1,2) have I': "none_inv Y f'" and td: "budget Y f' = budget Y f" by simp_all
      from Continue Suc.prems(2) r1 Some
      have "oval_fts_read_loop (tree_env fs base) n (h\<lparr>ofts_fts := f'\<rparr>) = Some (r, ofts')" by simp
      from Suc.IH[OF I' this] td bu show ?thesis by auto
    next
      case (Emit y f')
      with b(1,2) have I': "none_inv Y f'" and td: "budget Y f' = budget Y f" by simp_all
      from b(3)[OF Emit] have "Y e1" .
      with Emit Suc.prems(2) r1 Some I' td bu show ?thesis by auto
    next
      case (Abort f')
      with b(1,2) have I': "none_inv Y f'" and td: "budget Y f' = budget Y f" by simp_all
      with Abort Suc.prems(2) r1 Some bu show ?thesis by auto
    qed
  qed
qed

lemma none_walk:
  assumes dir: "direction h = OVAL_RECURSE_DIRECTION_NONE"
    and op: "ofts_path_op h = OVAL_OPERATION_EQUALS"
    and fn: "ofts_sfilename h \<noteq> None" and fp: "ofts_sfilepath h = None"
    and re: "ofts_path_regex h = None"
    and Y: "Y = name_accepted (probe_entobj_cmp base) (ofts_sfilename h)"
  shows "none_inv Y g \<Longrightarrow> oval_fts_walk (tree_env fs base) n (h\<lparr>ofts_fts := g\<rparr>) = Some xs \<Longrightarrow>
           length xs \<le> budget Y g"
proof (induction n arbitrary: g xs)
  case 0
  then show ?case by simp
next
  case (Suc n)
  from Suc.prems(2) obtain r ofts' where
    lp: "oval_fts_read_loop (tree_env fs base) (Suc n) (h\<lparr>ofts_fts := g\<rparr>) = Some (r, ofts')"
    by (cases "oval_fts_read_loop (tree_env fs base) (Suc n) (h\<lparr>ofts_fts := g\<rparr>)") auto
  note l = none_loop[OF dir op fn fp re Y Suc.prems(1) lp]
  from read_loop_handle[OF lp] have h': "ofts' = h\<lparr>ofts_fts := ofts_fts ofts'\<rparr>" by simp
  show ?case
  proof (cases r)
    case None
    with Suc.prems(2) lp show ?thesis by simp
  next
    case (Some ex)
    with Suc.prems(2) lp obtain ys where
      ys: "oval_fts_walk (tree_env fs base) n ofts' = Some ys" and xs: "xs = ex # ys"
      by auto
    from ys h' have "oval_fts_walk (tree_env fs base) n (h\<lparr>ofts_fts := ofts_fts ofts'\<rparr>) = Some ys"
      by simp
    from Suc.IH[OF _ this] l have "length ys \<le> budget Y (ofts_fts ofts')" by simp
    with l Some xs show ?thesis by simp
  qed
qed

lemma accepted_children_child:
  "filter (\<lambda>c. name_accepted cmp fn (child_ent e c)) (dir_entries n) = accepted_children cmp fn n"
  by (simp add: accepted_children_def name_accepted_def child_ent_def)

lemma none_open:
  assumes "tree_fts_open fs paths opts = Some s"
    and "\<forall>p \<in> set paths. length (accepted_children cmp fn (root_node fs p)) \<le> 1"
  shows "none_inv (name_accepted cmp fn) s" and "budget (name_accepted cmp fn) s = length paths"
proof -
  from assms(1) have s: "s = \<lparr> t_cur = None, t_instr = None,
        t_todo = map (\<lambda>p. Pre (root_ent fs p) (root_node fs p)) paths,
        t_xdev = (opts AND FTS_XDEV \<noteq> 0), t_dev = None \<rparr>"
    by (auto simp: tree_fts_open_def split: if_splits)
  have l0: "fts_level (root_ent fs p) = 0" for p by (simp add: root_ent_def)
  show "none_inv (name_accepted cmp fn) s"
    using assms(2) unfolding s
    by (auto simp: none_inv_def none_ret_def list_all_iff l0 accepted_children_child)
  have "sum_list (map (item_weight Y) (map (\<lambda>p. Pre (root_ent fs p) (root_node fs p)) ps))
          = length ps" for ps Y
    by (induction ps) (auto simp: l0)
  then show "budget (name_accepted cmp fn) s = length paths"
    unfolding s by (simp add: budget_def cur_weight_def)
qed

section \<open>The claims\<close>

subsection \<open>Claim C1: the comparisons behind a yielded entry\<close>

text \<open>
  Claim C1, as amended. For every entry yielded in the course of a walk: in filepath
  mode the comparison of \<open>sfilepath\<close> with the full path returned TRUE; in
  path+filename mode the comparison of \<open>sfilename\<close> with the basename returned TRUE,
  and the comparison of \<open>spath\<close> with the directory portion returned TRUE unless the
  path operation is \<open>EQUALS\<close>; in path-only mode the comparison of \<open>spath\<close> with the
  full path returned TRUE unless the path operation is \<open>EQUALS\<close>. Under \<open>EQUALS\<close> the
  result of the \<open>spath\<close> comparison is overwritten (line 468) and is not required.
\<close>

theorem walk_entity_comparisons:
  assumes "oval_fts_walk env n ofts = Some xs" and "(e, x) \<in> set xs"
  shows "(ofts_sfilepath ofts \<noteq> None \<longrightarrow>
            probe_entobj_cmp env (ofts_sfilepath ofts) (fts_path e) = OVAL_RESULT_TRUE)
       \<and> (ofts_sfilepath ofts = None \<and> ofts_sfilename ofts \<noteq> None \<longrightarrow>
            probe_entobj_cmp env (ofts_sfilename ofts) (fts_name e) = OVAL_RESULT_TRUE
            \<and> (ofts_path_op ofts \<noteq> OVAL_OPERATION_EQUALS \<longrightarrow>
                 probe_entobj_cmp env (ofts_spath ofts)
                   (take (spec_pathlen (fts_pathlen e) (fts_namelen e)) (fts_path e))
                 = OVAL_RESULT_TRUE))
       \<and> (ofts_sfilepath ofts = None \<and> ofts_sfilename ofts = None
            \<and> ofts_path_op ofts \<noteq> OVAL_OPERATION_EQUALS \<longrightarrow>
            probe_entobj_cmp env (ofts_spath ofts) (fts_path e) = OVAL_RESULT_TRUE)"
proof -
  note m = walk_match[OF assms]
  from read_match_filepath[OF m] read_match_filename[OF m] read_match_pathonly[OF m]
  show ?thesis by (simp add: first_bytes_spec)
qed

text \<open>
  The theorem at work on the tree \<open>/etc\<close>, with operations other than \<open>EQUALS\<close>
  on the path: by filepath, by path and filename, and by path alone.
\<close>

theorem walk_entity_comparisons_witness:
  "oval_fts_session (sample_env fs_root) None None (Some (ent OVAL_OPERATION_NOT_EQUAL ''/''))
     (bhv ''-1'' ''none'' ''all'') 20
   = Some [(\<lparr>fts_path = ''/etc'', fts_pathlen = 4, fts_name = ''etc'', fts_namelen = 3,
              fts_info = FTS_F, fts_level = 1, fts_statp = Some 1, fts_parent_dev = Some 1\<rparr>,
            \<lparr>path = ''/'', path_len = 1, file = Some ''etc'', file_len = 3\<rparr>)]
   \<and> probe_entobj_cmp (sample_env fs_root) (Some (ent OVAL_OPERATION_NOT_EQUAL ''/'')) ''/etc''
       = OVAL_RESULT_TRUE
   \<and> oval_fts_session (sample_env fs_root) (Some (ent OVAL_OPERATION_NOT_EQUAL ''/zz''))
       (Some (ent OVAL_OPERATION_EQUALS ''etc'')) None (bhv ''-1'' ''none'' ''all'') 20
     = Some [(\<lparr>fts_path = ''/etc'', fts_pathlen = 4, fts_name = ''etc'', fts_namelen = 3,
                fts_info = FTS_F, fts_level = 1, fts_statp = Some 1, fts_parent_dev = Some 1\<rparr>,
              \<lparr>path = ''/'', path_len = 1, file = Some ''etc'', file_len = 3\<rparr>)]
   \<and> probe_entobj_cmp (sample_env fs_root) (Some (ent OVAL_OPERATION_EQUALS ''etc'')) ''etc''
       = OVAL_RESULT_TRUE
   \<and> probe_entobj_cmp (sample_env fs_root) (Some (ent OVAL_OPERATION_NOT_EQUAL ''/zz''))
         (take (spec_pathlen 4 3) ''/etc'')
       = OVAL_RESULT_TRUE
   \<and> oval_fts_session (sample_env fs_root) (Some (ent OVAL_OPERATION_NOT_EQUAL ''/zz''))
       (Some (ent OVAL_OPERATION_EQUALS [])) None (bhv ''-1'' ''none'' ''all'') 20
     = Some [(\<lparr>fts_path = ''/'', fts_pathlen = 1, fts_name = ''/'', fts_namelen = 1,
                fts_info = FTS_D, fts_level = 0, fts_statp = Some 1, fts_parent_dev = None\<rparr>,
              \<lparr>path = ''/'', path_len = 1, file = None, file_len = - 1\<rparr>)]
   \<and> probe_entobj_cmp (sample_env fs_root) (Some (ent OVAL_OPERATION_NOT_EQUAL ''/zz'')) ''/''
       = OVAL_RESULT_TRUE"
proof -
  let ?env = "sample_env fs_root"
  let ?etc = "\<lparr>fts_path = ''/etc'', fts_pathlen = 4, fts_name = ''etc'', fts_namelen = 3,
              fts_info = FTS_F, fts_level = 1, fts_statp = Some 1, fts_parent_dev = Some 1\<rparr>"
  let ?xetc = "\<lparr>path = ''/'', path_len = 1, file = Some ''etc'', file_len = 3\<rparr>"
  let ?root = "\<lparr>fts_path = ''/'', fts_pathlen = 1, fts_name = ''/'', fts_namelen = 1,
                fts_info = FTS_D, fts_level = 0, fts_statp = Some 1, fts_parent_dev = None\<rparr>"
  let ?xroot = "\<lparr>path = ''/'', path_len = 1, file = None, file_len = - 1\<rparr>"
  let ?fp = "ent OVAL_OPERATION_NOT_EQUAL ''/''"
  let ?p = "ent OVAL_OPERATION_NOT_EQUAL ''/zz''"
  let ?fn = "ent OVAL_OPERATION_EQUALS ''etc''"
  let ?nil = "ent OVAL_OPERATION_EQUALS []"
  let ?bh = "bhv ''-1'' ''none'' ''all''"
  have s1: "oval_fts_session ?env None None (Some ?fp) ?bh 20 = Some [(?etc, ?xetc)]"
    by code_simp
  have p1: "map_option ofts_sfilepath (opened_handle (oval_fts_open ?env None None (Some ?fp) ?bh))
              = Some (Some ?fp)"
    by code_simp
  from session_walk[OF s1] obtain o1 l1 where
    o1: "oval_fts_open ?env None None (Some ?fp) ?bh = Opened o1 l1"
    and w1: "oval_fts_walk ?env 20 o1 = Some [(?etc, ?xetc)]" by blast
  from p1 o1 have f1: "ofts_sfilepath o1 = Some ?fp" by simp
  from walk_entity_comparisons[OF w1, of ?etc ?xetc] f1
  have c1: "probe_entobj_cmp ?env (Some ?fp) ''/etc'' = OVAL_RESULT_TRUE" by simp
  have s2: "oval_fts_session ?env (Some ?p) (Some ?fn) None ?bh 20 = Some [(?etc, ?xetc)]"
    by code_simp
  have p2: "map_option (\<lambda>h. (ofts_sfilepath h, ofts_sfilename h, ofts_spath h, ofts_path_op h))
              (opened_handle (oval_fts_open ?env (Some ?p) (Some ?fn) None ?bh))
              = Some (None, Some ?fn, Some ?p, OVAL_OPERATION_NOT_EQUAL)"
    by code_simp
  from session_walk[OF s2] obtain o2 l2 where
    o2: "oval_fts_open ?env (Some ?p) (Some ?fn) None ?bh = Opened o2 l2"
    and w2: "oval_fts_walk ?env 20 o2 = Some [(?etc, ?xetc)]" by blast
  from p2 o2 have f2: "ofts_sfilepath o2 = None" "ofts_sfilename o2 = Some ?fn"
    "ofts_spath o2 = Some ?p" "ofts_path_op o2 = OVAL_OPERATION_NOT_EQUAL" by simp_all
  from walk_entity_comparisons[OF w2, of ?etc ?xetc] f2
  have c2: "probe_entobj_cmp ?env (Some ?fn) ''etc'' = OVAL_RESULT_TRUE
          \<and> probe_entobj_cmp ?env (Some ?p) (take (spec_pathlen 4 3) ''/etc'') = OVAL_RESULT_TRUE"
    by simp
  have s3: "oval_fts_session ?env (Some ?p) (Some ?nil) None ?bh 20 = Some [(?root, ?xroot)]"
    by code_simp
  have p3: "map_option (\<lambda>h. (ofts_sfilepath h, ofts_sfilename h, ofts_spath h, ofts_path_op h))
              (opened_handle (oval_fts_open ?env (Some ?p) (Some ?nil) None ?bh))
              = Some (None, None, Some ?p, OVAL_OPERATION_NOT_EQUAL)"
    by code_simp
  from session_walk[OF s3] obtain o3 l3 where
    o3: "oval_fts_open ?env (Some ?p) (Some ?nil) None ?bh = Opened o3 l3"
    and w3: "oval_fts_walk ?env 20 o3 = Some [(?root, ?xroot)]" by blast
  from p3 o3 have f3: "ofts_sfilepath o3 = None" "ofts_sfilename o3 = None"
    "ofts_spath o3 = Some ?p" "ofts_path_op o3 = OVAL_OPERATION_NOT_EQUAL" by simp_all
  from walk_entity_comparisons[OF w3, of ?root ?xroot] f3
  have c3: "probe_entobj_cmp ?env (Some ?p) ''/'' = OVAL_RESULT_TRUE" by simp
  from s1 c1 s2 c2 s3 c3 show ?thesis by blast
qed

text \<open>
  Claim C1 as it was stated fails. The path entity is \<open>/a\<close> with the operation \<open>EQUALS\<close>,
  there is no filename, the direction is \<open>down\<close>: the directory \<open>/a/c\<close> is yielded,
  and the comparison of the path entity with its full path returns FALSE.
\<close>

theorem equals_skips_path_comparison:
  "oval_fts_session (sample_env fs_a) (Some (ent OVAL_OPERATION_EQUALS ''/a''))
     (Some (ent OVAL_OPERATION_EQUALS [])) None (bhv ''-1'' ''down'' ''all'') 20
   = Some [(\<lparr>fts_path = ''/a'', fts_pathlen = 2, fts_name = ''a'', fts_namelen = 1,
              fts_info = FTS_D, fts_level = 0, fts_statp = Some 1, fts_parent_dev = None\<rparr>,
            \<lparr>path = ''/a'', path_len = 2, file = None, file_len = - 1\<rparr>),
           (\<lparr>fts_path = ''/a/c'', fts_pathlen = 4, fts_name = ''c'', fts_namelen = 1,
              fts_info = FTS_D, fts_level = 1, fts_statp = Some 1, fts_parent_dev = Some 1\<rparr>,
            \<lparr>path = ''/a/c'', path_len = 4, file = None, file_len = - 1\<rparr>)]
   \<and> probe_entobj_cmp (sample_env fs_a) (Some (ent OVAL_OPERATION_EQUALS ''/a'')) ''/a/c''
       = OVAL_RESULT_FALSE"
  by code_simp

subsection \<open>Claim C2: the split into path and file\<close>

text \<open>
  Claim C2, as amended. For every entry yielded in path+filename mode, \<open>path\<close> is the
  first \<open>pathlen\<close> bytes of the driver's full path, with \<open>pathlen\<close> as the
  specification gives it, and \<open>file\<close> is the driver's basename. When the driver's full
  path is a directory \<open>d\<close>, a slash and the basename (and the two length fields are
  the lengths of the two strings): if \<open>d\<close> is not empty, \<open>path\<close> is \<open>d\<close> and joining
  \<open>path\<close> and \<open>file\<close> with a single slash gives the full path; if \<open>d\<close> is empty (an
  entry directly under the root directory), \<open>path\<close> is \<open>/\<close> and \<open>path\<close> followed by
  \<open>file\<close>, with no slash added, gives the full path.
\<close>

theorem walk_path_file_split:
  assumes "oval_fts_walk env n ofts = Some xs" and "(e, x) \<in> set xs"
    and "ofts_sfilename ofts \<noteq> None"
  shows "path x = take (spec_pathlen (fts_pathlen e) (fts_namelen e)) (fts_path e)
       \<and> file x = Some (fts_name e)
       \<and> (fts_pathlen e = length (fts_path e) \<and> fts_namelen e = length (fts_name e)
            \<and> fts_path e = d @ ''/'' @ fts_name e \<longrightarrow>
          (if d = [] then path x = ''/'' \<and> path x @ fts_name e = fts_path e
           else path x = d \<and> join_path (path x) (fts_name e) = fts_path e))"
proof -
  from walk_match[OF assms(1,2)] have x: "x = OVAL_FTSENT_new ofts e"
    by (rule read_match_Some(1))
  note f = FTSENT_new_filename[OF assms(3), of e]
  have "take (spec_pathlen (fts_pathlen e) (fts_namelen e)) (fts_path e) = (if d = [] then ''/'' else d)"
    if "fts_pathlen e = length (fts_path e)" "fts_namelen e = length (fts_name e)"
       "fts_path e = d @ ''/'' @ fts_name e"
    using split_dir_name[OF that(3)] that(1,2) by simp
  with x f show ?thesis by (auto simp: join_path_def)
qed

text \<open>The theorem at work: \<open>b.txt\<close> in \<open>/a\<close>, and \<open>etc\<close> in the root directory.\<close>

theorem walk_path_file_split_witness:
  "oval_fts_session (sample_env fs_two) (Some (ent OVAL_OPERATION_EQUALS ''/a''))
     (Some (ent OVAL_OPERATION_EQUALS ''b.txt'')) None (bhv ''-1'' ''none'' ''all'') 20
   = Some [(\<lparr>fts_path = ''/a/b.txt'', fts_pathlen = 8, fts_name = ''b.txt'', fts_namelen = 5,
              fts_info = FTS_F, fts_level = 1, fts_statp = Some 1, fts_parent_dev = Some 1\<rparr>,
            \<lparr>path = ''/a'', path_len = 2, file = Some ''b.txt'', file_len = 5\<rparr>)]
   \<and> join_path ''/a'' ''b.txt'' = ''/a/b.txt''
   \<and> oval_fts_session (sample_env fs_root) (Some (ent OVAL_OPERATION_EQUALS ''/''))
       (Some (ent OVAL_OPERATION_EQUALS ''etc'')) None (bhv ''-1'' ''none'' ''all'') 20
     = Some [(\<lparr>fts_path = ''/etc'', fts_pathlen = 4, fts_name = ''etc'', fts_namelen = 3,
                fts_info = FTS_F, fts_level = 1, fts_statp = Some 1, fts_parent_dev = Some 1\<rparr>,
              \<lparr>path = ''/'', path_len = 1, file = Some ''etc'', file_len = 3\<rparr>)]
   \<and> ''/'' @ ''etc'' = ''/etc''"
proof -
  let ?b = "\<lparr>fts_path = ''/a/b.txt'', fts_pathlen = 8, fts_name = ''b.txt'', fts_namelen = 5,
              fts_info = FTS_F, fts_level = 1, fts_statp = Some 1, fts_parent_dev = Some 1\<rparr>"
  let ?xb = "\<lparr>path = ''/a'', path_len = 2, file = Some ''b.txt'', file_len = 5\<rparr>"
  let ?etc = "\<lparr>fts_path = ''/etc'', fts_pathlen = 4, fts_name = ''etc'', fts_namelen = 3,
              fts_info = FTS_F, fts_level = 1, fts_statp = Some 1, fts_parent_dev = Some 1\<rparr>"
  let ?xetc = "\<lparr>path = ''/'', path_len = 1, file = Some ''etc'', file_len = 3\<rparr>"
  let ?bh = "bhv ''-1'' ''none'' ''all''"
  have s1: "oval_fts_session (sample_env fs_two) (Some (ent OVAL_OPERATION_EQUALS ''/a''))
     (Some (ent OVAL_OPERATION_EQUALS ''b.txt'')) None ?bh 20 = Some [(?b, ?xb)]"
    by code_simp
  have p1: "map_option ofts_sfilename (opened_handle (oval_fts_open (sample_env fs_two)
              (Some (ent OVAL_OPERATION_EQUALS ''/a'')) (Some (ent OVAL_OPERATION_EQUALS ''b.txt''))
              None ?bh)) = Some (Some (ent OVAL_OPERATION_EQUALS ''b.txt''))"
    by code_simp
  from session_walk[OF s1] obtain o1 l1 where
    o1: "oval_fts_open (sample_env fs_two) (Some (ent OVAL_OPERATION_EQUALS ''/a''))
           (Some (ent OVAL_OPERATION_EQUALS ''b.txt'')) None ?bh = Opened o1 l1"
    and w1: "oval_fts_walk (sample_env fs_two) 20 o1 = Some [(?b, ?xb)]" by blast
  from p1 o1 have f1: "ofts_sfilename o1 \<noteq> None" by simp
  from walk_path_file_split[OF w1 _ f1, of ?b ?xb "''/a''"]
  have c1: "join_path ''/a'' ''b.txt'' = ''/a/b.txt''" by (simp add: spec_pathlen_def)
  have s2: "oval_fts_session (sample_env fs_root) (Some (ent OVAL_OPERATION_EQUALS ''/''))
       (Some (ent OVAL_OPERATION_EQUALS ''etc'')) None ?bh 20 = Some [(?etc, ?xetc)]"
    by code_simp
  have p2: "map_option ofts_sfilename (opened_handle (oval_fts_open (sample_env fs_root)
              (Some (ent OVAL_OPERATION_EQUALS ''/'')) (Some (ent OVAL_OPERATION_EQUALS ''etc''))
              None ?bh)) = Some (Some (ent OVAL_OPERATION_EQUALS ''etc''))"
    by code_simp
  from session_walk[OF s2] obtain o2 l2 where
    o2: "oval_fts_open (sample_env fs_root) (Some (ent OVAL_OPERATION_EQUALS ''/''))
           (Some (ent OVAL_OPERATION_EQUALS ''etc'')) None ?bh = Opened o2 l2"
    and w2: "oval_fts_walk (sample_env fs_root) 20 o2 = Some [(?etc, ?xetc)]" by blast
  from p2 o2 have f2: "ofts_sfilename o2 \<noteq> None" by simp
  from walk_path_file_split[OF w2 _ f2, of ?etc ?xetc "[]"]
  have c2: "''/'' @ ''etc'' = ''/etc''" by (simp add: spec_pathlen_def)
  from s1 c1 s2 c2 show ?thesis by blast
qed

text \<open>
  Claim C2 as it was stated fails in its last part. The path entity is \<open>/\<close>, the
  filename \<open>etc\<close>: the entry yielded for \<open>/etc\<close> has the path \<open>/\<close> and the file
  \<open>etc\<close>, and their join with a single slash is \<open>//etc\<close>, not the driver's full path.
  And when the path entity names the file \<open>b.txt\<close> itself, relative to the working
  directory, the root entry is yielded with the whole path in both fields.
\<close>

theorem root_child_join_differs:
  "oval_fts_session (sample_env fs_root) (Some (ent OVAL_OPERATION_EQUALS ''/''))
     (Some (ent OVAL_OPERATION_EQUALS ''etc'')) None (bhv ''-1'' ''none'' ''all'') 20
   = Some [(\<lparr>fts_path = ''/etc'', fts_pathlen = 4, fts_name = ''etc'', fts_namelen = 3,
              fts_info = FTS_F, fts_level = 1, fts_statp = Some 1, fts_parent_dev = Some 1\<rparr>,
            \<lparr>path = ''/'', path_len = 1, file = Some ''etc'', file_len = 3\<rparr>)]
   \<and> join_path ''/'' ''etc'' = ''//etc''
   \<and> join_path ''/'' ''etc'' \<noteq> ''/etc''
   \<and> oval_fts_session (sample_env fs_rel) (Some (ent OVAL_OPERATION_EQUALS ''b.txt''))
       (Some (ent OVAL_OPERATION_EQUALS ''b.txt'')) None (bhv ''-1'' ''none'' ''all'') 20
     = Some [(\<lparr>fts_path = ''b.txt'', fts_pathlen = 5, fts_name = ''b.txt'', fts_namelen = 5,
                fts_info = FTS_F, fts_level = 0, fts_statp = Some 1, fts_parent_dev = None\<rparr>,
              \<lparr>path = ''b.txt'', path_len = 5, file = Some ''b.txt'', file_len = 5\<rparr>)]
   \<and> join_path ''b.txt'' ''b.txt'' \<noteq> ''b.txt''"
  by code_simp

subsection \<open>Claim C3: the depth limit\<close>

text \<open>
  Claim C3, as amended. With the direction \<open>down\<close>, \<open>max_depth = k\<close> with \<open>k\<close> at least
  zero, and no pruning regex on the handle, no entry yielded in the course of a walk
  has an \<open>fts_level\<close> above \<open>k + 1\<close>: the depth test (line 513) decides whether the
  driver may descend from the entry at hand, so the entries one level below a directory
  at depth \<open>k\<close> are still visited and evaluated. A yielded file thus lies in a directory
  at most \<open>k\<close> levels below the starting root, a yielded directory at most \<open>k + 1\<close>
  levels below it. The driver is the tree driver, opened on any list of roots.
\<close>

theorem walk_down_depth:
  assumes "tree_fts_open fs paths opts = Some (ofts_fts ofts)"
    and "direction ofts = OVAL_RECURSE_DIRECTION_DOWN" and "0 \<le> max_depth ofts"
    and "ofts_path_regex ofts = None"
    and "oval_fts_walk (tree_env fs base) n ofts = Some xs" and "(e, x) \<in> set xs"
  shows "fts_level e \<le> max_depth ofts + 1"
proof -
  let ?K = "max_depth ofts + 1"
  let ?I = "depth_inv ?K"
  let ?R = "\<lambda>e f. depth_ret ?K f \<and> (\<exists>n. t_cur f = Some (e, n))"
  have rd: "\<And>f r f'. ?I f \<Longrightarrow> fts_read (tree_env fs base) f = (r, f') \<Longrightarrow>
                 (case r of None \<Rightarrow> ?I f' | Some e \<Rightarrow> ?R e f')"
  proof -
    fix f r f' assume "?I f" "fts_read (tree_env fs base) f = (r, f')"
    then have "depth_ret ?K f' \<and> (case r of None \<Rightarrow> t_cur f' = None | Some e \<Rightarrow> (\<exists>n. t_cur f' = Some (e, n)))"
      using depth_read[of ?K f r f'] by simp
    then show "case r of None \<Rightarrow> ?I f' | Some e \<Rightarrow> ?R e f'"
      by (cases r) (auto simp: depth_inv_def)
  qed
  have bd: "\<And>e f. ?R e f \<Longrightarrow>
              ?I (turn_fts (oval_fts_read_body (tree_env fs base) (ofts\<lparr>ofts_fts := f\<rparr>) e))"
    using depth_body[OF assms(2,3,4)] by blast
  have I0: "?I (ofts_fts ofts)" using depth_open[OF assms(1)] assms(3) by simp
  have w: "oval_fts_walk (tree_env fs base) n (ofts\<lparr>ofts_fts := ofts_fts ofts\<rparr>) = Some xs"
    using assms(5) by simp
  have "\<exists>f. ?R e f"
    by (rule walk_invariant[where I="?I" and R="?R" and env="tree_env fs base" and h=ofts
          and g="ofts_fts ofts" and n=n and xs=xs and x=x])
       (fact rd, fact bd, fact I0, fact w, fact assms(6))
  then obtain f n where "depth_ret ?K f" "t_cur f = Some (e, n)" by blast
  then show ?thesis by (simp add: depth_ret_def)
qed

text \<open>
  The theorem at work: \<open>max_depth = 1\<close> under \<open>/a\<close>, every file accepted. The files
  \<open>/a/b.txt\<close> at depth one and \<open>/a/c/d.txt\<close> at depth two are yielded.
\<close>

theorem walk_down_depth_witness:
  "oval_fts_session (sample_env fs_a) (Some (ent OVAL_OPERATION_EQUALS ''/a''))
     (Some (ent OVAL_OPERATION_NOT_EQUAL ''zz'')) None (bhv ''1'' ''down'' ''all'') 20
   = Some [(\<lparr>fts_path = ''/a/b.txt'', fts_pathlen = 8, fts_name = ''b.txt'', fts_namelen = 5,
              fts_info = FTS_F, fts_level = 1, fts_statp = Some 1, fts_parent_dev = Some 1\<rparr>,
            \<lparr>path = ''/a'', path_len = 2, file = Some ''b.txt'', file_len = 5\<rparr>),
           (\<lparr>fts_path = ''/a/c/d.txt'', fts_pathlen = 10, fts_name = ''d.txt'', fts_namelen = 5,
              fts_info = FTS_F, fts_level = 2, fts_statp = Some 1, fts_parent_dev = Some 1\<rparr>,
            \<lparr>path = ''/a/c'', path_len = 4, file = Some ''d.txt'', file_len = 5\<rparr>)]
   \<and> fts_level \<lparr>fts_path = ''/a/c/d.txt'', fts_pathlen = 10, fts_name = ''d.txt'',
                 fts_namelen = 5, fts_info = FTS_F, fts_level = 2, fts_statp = Some 1, fts_parent_dev = Some 1\<rparr>
       \<le> 1 + 1"
proof -
  let ?env = "sample_env fs_a"
  let ?p = "ent OVAL_OPERATION_EQUALS ''/a''"
  let ?fn = "ent OVAL_OPERATION_NOT_EQUAL ''zz''"
  let ?bh = "bhv ''1'' ''down'' ''all''"
  let ?b = "\<lparr>fts_path = ''/a/b.txt'', fts_pathlen = 8, fts_name = ''b.txt'', fts_namelen = 5,
              fts_info = FTS_F, fts_level = 1, fts_statp = Some 1, fts_parent_dev = Some 1\<rparr>"
  let ?xb = "\<lparr>path = ''/a'', path_len = 2, file = Some ''b.txt'', file_len = 5\<rparr>"
  let ?d = "\<lparr>fts_path = ''/a/c/d.txt'', fts_pathlen = 10, fts_name = ''d.txt'', fts_namelen = 5,
              fts_info = FTS_F, fts_level = 2, fts_statp = Some 1, fts_parent_dev = Some 1\<rparr>"
  let ?xd = "\<lparr>path = ''/a/c'', path_len = 4, file = Some ''d.txt'', file_len = 5\<rparr>"
  have s: "oval_fts_session ?env (Some ?p) (Some ?fn) None ?bh 20 = Some [(?b, ?xb), (?d, ?xd)]"
    by code_simp
  have p: "map_option (\<lambda>h. (direction h, max_depth h, ofts_path_regex h))
             (opened_handle (oval_fts_open ?env (Some ?p) (Some ?fn) None ?bh))
           = Some (OVAL_RECURSE_DIRECTION_DOWN, 1, None)"
    by code_simp
  from session_walk[OF s] obtain ofts live where
    o: "oval_fts_open ?env (Some ?p) (Some ?fn) None ?bh = Opened ofts live"
    and w: "oval_fts_walk ?env 20 ofts = Some [(?b, ?xb), (?d, ?xd)]" by blast
  from p o have f: "direction ofts = OVAL_RECURSE_DIRECTION_DOWN" "max_depth ofts = 1"
    "ofts_path_regex ofts = None" by simp_all
  from open_driver[OF o] obtain opts where
    d: "tree_fts_open fs_a (ofts_st_path ofts) opts = Some (ofts_fts ofts)" by auto
  from w have w': "oval_fts_walk (tree_env fs_a sample_base) 20 ofts = Some [(?b, ?xb), (?d, ?xd)]"
    by simp
  have "fts_level ?d \<le> max_depth ofts + 1"
    by (rule walk_down_depth[OF d f(1) _ f(3) w']) (simp_all add: f)
  with s f show ?thesis by simp
qed

text \<open>
  Claim C3 as it was stated fails. With \<open>max_depth = 0\<close>, the direction \<open>down\<close>, the
  path \<open>/a\<close> and no filename, the directory \<open>/a/c\<close>, at depth one, is yielded.
\<close>

theorem down_yields_below_max_depth:
  "oval_fts_session (sample_env fs_a) (Some (ent OVAL_OPERATION_EQUALS ''/a''))
     (Some (ent OVAL_OPERATION_EQUALS [])) None (bhv ''0'' ''down'' ''all'') 20
   = Some [(\<lparr>fts_path = ''/a'', fts_pathlen = 2, fts_name = ''a'', fts_namelen = 1,
              fts_info = FTS_D, fts_level = 0, fts_statp = Some 1, fts_parent_dev = None\<rparr>,
            \<lparr>path = ''/a'', path_len = 2, file = None, file_len = - 1\<rparr>),
           (\<lparr>fts_path = ''/a/c'', fts_pathlen = 4, fts_name = ''c'', fts_namelen = 1,
              fts_info = FTS_D, fts_level = 1, fts_statp = Some 1, fts_parent_dev = Some 1\<rparr>,
            \<lparr>path = ''/a/c'', path_len = 4, file = None, file_len = - 1\<rparr>)]
   \<and> map_option (\<lambda>h. (direction h, max_depth h))
       (opened_handle (oval_fts_open (sample_env fs_a) (Some (ent OVAL_OPERATION_EQUALS ''/a''))
          (Some (ent OVAL_OPERATION_EQUALS [])) None (bhv ''0'' ''down'' ''all'')))
     = Some (OVAL_RECURSE_DIRECTION_DOWN, 0)
   \<and> \<not> fts_level \<lparr>fts_path = ''/a/c'', fts_pathlen = 4, fts_name = ''c'', fts_namelen = 1,
                     fts_info = FTS_D, fts_level = 1, fts_statp = Some 1, fts_parent_dev = Some 1\<rparr> \<le> 0"
  by code_simp

subsection \<open>Claim C4: symbolic links\<close>

text \<open>
  What the code excludes, for every driver: no entry yielded in the course of a walk
  carries the tag \<open>SL\<close> (line 442).
\<close>

lemma walk_yields_no_SL:
  assumes "oval_fts_walk env n ofts = Some xs" and "(e, x) \<in> set xs"
  shows "fts_info e \<noteq> FTS_SL"
  using read_match_Some(2)[OF walk_match[OF assms]] .

text \<open>
  Claim C4 asks that a symbolic link itself is never yielded, only what it resolves to,
  and the message at line 443 says the same (\<open>Only the target of a symlink gets
  reported\<close>). The code tests for the tag \<open>SL\<close> alone. \<open>/d/link\<close> is a symbolic link
  without a target: the walker has it followed, the driver returns it once more with the
  tag \<open>SLNONE\<close>, and the link itself is yielded, although no resolved target exists.
\<close>

theorem dangling_symlink_yielded:
  "oval_fts_session (sample_env fs_dangling) (Some (ent OVAL_OPERATION_EQUALS ''/d''))
     (Some (ent OVAL_OPERATION_EQUALS ''link'')) None (bhv ''-1'' ''down'' ''all'') 20
   = Some [(\<lparr>fts_path = ''/d/link'', fts_pathlen = 7, fts_name = ''link'', fts_namelen = 4,
              fts_info = FTS_SLNONE, fts_level = 1, fts_statp = Some 1, fts_parent_dev = Some 1\<rparr>,
            \<lparr>path = ''/d'', path_len = 2, file = Some ''link'', file_len = 4\<rparr>)]
   \<and> fs_dangling ''/d'' = Some (FsDir 1 [(''link'', FsLink 1 None)])
   \<and> fs_resolve (FsLink 1 None) = None"
  by code_simp

subsection \<open>Claim C5: the local filesystems\<close>

text \<open>
  Claim C5, as amended. With \<open>recurse_file_system = local\<close>, the direction \<open>down\<close> and
  no pruning regex on the handle, every entry yielded in the course of a walk lies in a
  directory whose device is a member of the device set taken at open time: the walker
  lets the driver enter no directory on another device (lines 542 to 566). Exempt are
  the starting roots and, when a filename entity is set, the entries directly in a
  starting root, which is not checked then (line 509). The device of the yielded entry
  itself may lie outside the set: a directory on another device is evaluated, and
  yielded, before the instruction to skip it is given. The driver is the tree driver,
  opened on any list of roots; each of its directories has a stat buffer, so the walker
  never has to resolve a path name to find the device. (For every driver, and whichever
  way \<open>OVAL_FTS_localp\<close> finds the device, the turn of a directory or link that it
  rejects ends with the instruction to skip: \<open>steer_local_skip\<close>.)
\<close>

theorem walk_local_directories:
  assumes "tree_fts_open fs paths opts = Some (ofts_fts ofts)"
    and "direction ofts = OVAL_RECURSE_DIRECTION_DOWN"
    and "filesystem ofts = OVAL_RECURSE_FS_LOCAL" and "localdevs ofts = Some devs"
    and "ofts_path_regex ofts = None"
    and "oval_fts_walk (tree_env fs base) n ofts = Some xs" and "(e, x) \<in> set xs"
  shows "fts_level e = 0 \<or> (fts_level e = 1 \<and> ofts_sfilename ofts \<noteq> None)
       \<or> dev_local devs (fts_parent_dev e)"
proof -
  let ?fm = "ofts_sfilename ofts \<noteq> None"
  let ?I = "local_inv devs ?fm"
  let ?R = "\<lambda>e f. local_ret devs ?fm f \<and> (\<exists>n. t_cur f = Some (e, n))"
  have rd: "\<And>f r f'. ?I f \<Longrightarrow> fts_read (tree_env fs base) f = (r, f') \<Longrightarrow>
                 (case r of None \<Rightarrow> ?I f' | Some e \<Rightarrow> ?R e f')"
  proof -
    fix f r f' assume "?I f" "fts_read (tree_env fs base) f = (r, f')"
    then have "local_ret devs ?fm f' \<and> (case r of None \<Rightarrow> t_cur f' = None | Some e \<Rightarrow> (\<exists>n. t_cur f' = Some (e, n)))"
      using local_read[of devs ?fm f r f'] by simp
    then show "case r of None \<Rightarrow> ?I f' | Some e \<Rightarrow> ?R e f'"
      by (cases r) (auto simp: local_inv_def)
  qed
  have bd: "\<And>e f. ?R e f \<Longrightarrow>
              ?I (turn_fts (oval_fts_read_body (tree_env fs base) (ofts\<lparr>ofts_fts := f\<rparr>) e))"
    using local_body[OF assms(2,3,4,5)] by blast
  have I0: "?I (ofts_fts ofts)" using local_open[OF assms(1)] by simp
  have w: "oval_fts_walk (tree_env fs base) n (ofts\<lparr>ofts_fts := ofts_fts ofts\<rparr>) = Some xs"
    using assms(6) by simp
  have "\<exists>f. ?R e f"
    by (rule walk_invariant[where I="?I" and R="?R" and env="tree_env fs base" and h=ofts
          and g="ofts_fts ofts" and n=n and xs=xs and x=x])
       (fact rd, fact bd, fact I0, fact w, fact assms(7))
  then obtain f n where "local_ret devs ?fm f" "t_cur f = Some (e, n)" by blast
  then show ?thesis by (auto simp: local_ret_def local_item_def in_local_dir_def)
qed

text \<open>
  The theorem at work: the device set is \<open>[1]\<close>, and \<open>/mnt\<close> holds the directory
  \<open>remote\<close> on device \<open>2\<close> and the directory \<open>local\<close> on device \<open>1\<close>, each with a
  file \<open>f\<close>. Only \<open>/mnt/local/f\<close> is yielded.
\<close>

theorem walk_local_directories_witness:
  "oval_fts_session (sample_env fs_mounts) (Some (ent OVAL_OPERATION_EQUALS ''/mnt''))
     (Some (ent OVAL_OPERATION_EQUALS ''f'')) None (bhv ''-1'' ''down'' ''local'') 30
   = Some [(\<lparr>fts_path = ''/mnt/local/f'', fts_pathlen = 12, fts_name = ''f'', fts_namelen = 1,
              fts_info = FTS_F, fts_level = 2, fts_statp = Some 1, fts_parent_dev = Some 1\<rparr>,
            \<lparr>path = ''/mnt/local'', path_len = 10, file = Some ''f'', file_len = 1\<rparr>)]
   \<and> dev_local [1] (Some 1)"
proof -
  let ?env = "sample_env fs_mounts"
  let ?p = "ent OVAL_OPERATION_EQUALS ''/mnt''"
  let ?fn = "ent OVAL_OPERATION_EQUALS ''f''"
  let ?bh = "bhv ''-1'' ''down'' ''local''"
  let ?e = "\<lparr>fts_path = ''/mnt/local/f'', fts_pathlen = 12, fts_name = ''f'', fts_namelen = 1,
              fts_info = FTS_F, fts_level = 2, fts_statp = Some 1, fts_parent_dev = Some 1\<rparr>"
  let ?x = "\<lparr>path = ''/mnt/local'', path_len = 10, file = Some ''f'', file_len = 1\<rparr>"
  have s: "oval_fts_session ?env (Some ?p) (Some ?fn) None ?bh 30 = Some [(?e, ?x)]"
    by code_simp
  have p: "map_option (\<lambda>h. (direction h, filesystem h, localdevs h, ofts_path_regex h))
             (opened_handle (oval_fts_open ?env (Some ?p) (Some ?fn) None ?bh))
           = Some (OVAL_RECURSE_DIRECTION_DOWN, OVAL_RECURSE_FS_LOCAL, Some [1], None)"
    by code_simp
  from session_walk[OF s] obtain ofts live where
    o: "oval_fts_open ?env (Some ?p) (Some ?fn) None ?bh = Opened ofts live"
    and w: "oval_fts_walk ?env 30 ofts = Some [(?e, ?x)]" by blast
  from p o have f: "direction ofts = OVAL_RECURSE_DIRECTION_DOWN"
    "filesystem ofts = OVAL_RECURSE_FS_LOCAL" "localdevs ofts = Some [1]"
    "ofts_path_regex ofts = None" by simp_all
  from open_driver[OF o] obtain opts where
    d: "tree_fts_open fs_mounts (ofts_st_path ofts) opts = Some (ofts_fts ofts)" by auto
  from w have w': "oval_fts_walk (tree_env fs_mounts sample_base) 30 ofts = Some [(?e, ?x)]"
    by simp
  have "fts_level ?e = 0 \<or> (fts_level ?e = 1 \<and> ofts_sfilename ofts \<noteq> None)
          \<or> dev_local [1] (fts_parent_dev ?e)"
    by (rule walk_local_directories[OF d f(1,2,3,4) w']) simp
  with s show ?thesis by simp
qed

text \<open>
  Claim C5 as it was stated fails. The device set is \<open>[1]\<close>. With the path \<open>/mnt\<close>, no
  filename and the direction \<open>down\<close>, the directory \<open>/mnt/remote\<close> on device \<open>2\<close> is
  yielded. With the starting root \<open>/mnt/remote\<close> on device \<open>2\<close> and the filename \<open>f\<close>,
  the file \<open>/mnt/remote/f\<close> on device \<open>2\<close> is yielded; so it is from the root \<open>/\<close>
  with the direction \<open>none\<close> and a path operation other than \<open>EQUALS\<close>, where the
  walker steers nothing, and with the direction \<open>down\<close> and the pruning regex of the
  pattern \<open>/mnt/remote\<close>, whose partial matches end the turn before the device check.
\<close>

theorem local_yields_foreign_directory:
  "oval_fts_session (sample_env fs_mnt) (Some (ent OVAL_OPERATION_EQUALS ''/mnt''))
     (Some (ent OVAL_OPERATION_EQUALS [])) None (bhv ''-1'' ''down'' ''local'') 20
   = Some [(\<lparr>fts_path = ''/mnt'', fts_pathlen = 4, fts_name = ''mnt'', fts_namelen = 3,
              fts_info = FTS_D, fts_level = 0, fts_statp = Some 1, fts_parent_dev = None\<rparr>,
            \<lparr>path = ''/mnt'', path_len = 4, file = None, file_len = - 1\<rparr>),
           (\<lparr>fts_path = ''/mnt/remote'', fts_pathlen = 11, fts_name = ''remote'',
              fts_namelen = 6, fts_info = FTS_D, fts_level = 1, fts_statp = Some 2, fts_parent_dev = Some 1\<rparr>,
            \<lparr>path = ''/mnt/remote'', path_len = 11, file = None, file_len = - 1\<rparr>)]
   \<and> map_option (\<lambda>h. (filesystem h, localdevs h))
       (opened_handle (oval_fts_open (sample_env fs_mnt) (Some (ent OVAL_OPERATION_EQUALS ''/mnt''))
          (Some (ent OVAL_OPERATION_EQUALS [])) None (bhv ''-1'' ''down'' ''local'')))
     = Some (OVAL_RECURSE_FS_LOCAL, Some [1])
   \<and> fsdev_search (Some [1]) 2 = 0
   \<and> oval_fts_session (sample_env fs_remote) (Some (ent OVAL_OPERATION_EQUALS ''/mnt/remote''))
       (Some (ent OVAL_OPERATION_EQUALS ''f'')) None (bhv ''-1'' ''down'' ''local'') 20
     = Some [(\<lparr>fts_path = ''/mnt/remote/f'', fts_pathlen = 13, fts_name = ''f'', fts_namelen = 1,
                fts_info = FTS_F, fts_level = 1, fts_statp = Some 2, fts_parent_dev = Some 2\<rparr>,
              \<lparr>path = ''/mnt/remote'', path_len = 11, file = Some ''f'', file_len = 1\<rparr>)]
   \<and> oval_fts_session (sample_env fs_slash) (Some (ent OVAL_OPERATION_NOT_EQUAL ''zz''))
       (Some (ent OVAL_OPERATION_EQUALS ''f'')) None (bhv ''-1'' ''none'' ''local'') 20
     = Some [(\<lparr>fts_path = ''/mnt/remote/f'', fts_pathlen = 13, fts_name = ''f'', fts_namelen = 1,
                fts_info = FTS_F, fts_level = 3, fts_statp = Some 2, fts_parent_dev = Some 2\<rparr>,
              \<lparr>path = ''/mnt/remote'', path_len = 11, file = Some ''f'', file_len = 1\<rparr>)]
   \<and> oval_fts_session (sample_env fs_slash) (Some (ent OVAL_OPERATION_PATTERN_MATCH ''/mnt/remote''))
       (Some (ent OVAL_OPERATION_EQUALS ''f'')) None (bhv ''-1'' ''down'' ''local'') 20
     = Some [(\<lparr>fts_path = ''/mnt/remote/f'', fts_pathlen = 13, fts_name = ''f'', fts_namelen = 1,
                fts_info = FTS_F, fts_level = 3, fts_statp = Some 2, fts_parent_dev = Some 2\<rparr>,
              \<lparr>path = ''/mnt/remote'', path_len = 11, file = Some ''f'', file_len = 1\<rparr>)]
   \<and> map_option ofts_path_regex
       (opened_handle (oval_fts_open (sample_env fs_slash)
          (Some (ent OVAL_OPERATION_PATTERN_MATCH ''/mnt/remote''))
          (Some (ent OVAL_OPERATION_EQUALS ''f'')) None (bhv ''-1'' ''down'' ''local'')))
     = Some (Some (Pcre ''/mnt/remote''))"
  by code_simp

subsection \<open>Claim C6: the direction \<open>none\<close> with \<open>EQUALS\<close>\<close>

text \<open>
  Claim C6, as amended. With the direction \<open>none\<close> and the path operation \<open>EQUALS\<close>, a
  walk emits at most one entry for each starting root, provided that the filename
  entity, when there is one, accepts the name of at most one entry of each root
  directory, directories and symbolic links not counted (as a filename entity with the
  operation \<open>EQUALS\<close> does). Without a filename entity nothing is asked. The driver is
  the tree driver, opened on any list of roots.
\<close>

theorem walk_none_one_per_root:
  assumes "tree_fts_open fs paths opts = Some (ofts_fts ofts)"
    and "direction ofts = OVAL_RECURSE_DIRECTION_NONE"
    and "ofts_path_op ofts = OVAL_OPERATION_EQUALS"
    and "ofts_sfilepath ofts = None"
    and "ofts_path_regex ofts = None"
    and "ofts_sfilename ofts \<noteq> None \<longrightarrow>
           (\<forall>p \<in> set paths.
              length (accepted_children (probe_entobj_cmp base) (ofts_sfilename ofts)
                        (root_node fs p)) \<le> 1)"
    and "oval_fts_walk (tree_env fs base) n ofts = Some xs"
  shows "length xs \<le> length paths"
proof (cases "ofts_sfilename ofts = None")
  case True
  note i = skip_open(1)[OF assms(1)] and t = skip_open(2)[OF assms(1)]
  from assms(7) have "oval_fts_walk (tree_env fs base) n (ofts\<lparr>ofts_fts := ofts_fts ofts\<rparr>) = Some xs"
    by simp
  from skip_walk[OF assms(2,3) True assms(4,5) i this] t show ?thesis by simp
next
  case False
  with assms(6) have "\<forall>p \<in> set paths.
              length (accepted_children (probe_entobj_cmp base) (ofts_sfilename ofts)
                        (root_node fs p)) \<le> 1" by simp
  note o = none_open[OF assms(1) this]
  from assms(7) have "oval_fts_walk (tree_env fs base) n (ofts\<lparr>ofts_fts := ofts_fts ofts\<rparr>) = Some xs"
    by simp
  from none_walk[OF assms(2,3) False assms(4,5) refl o(1) this] o(2) show ?thesis by simp
qed

text \<open>
  The theorem at work: the path \<open>/a\<close> and the filename \<open>b.txt\<close>, both with \<open>EQUALS\<close>;
  the one entry \<open>/a/b.txt\<close> is yielded.
\<close>

theorem walk_none_one_per_root_witness:
  "oval_fts_session (sample_env fs_a) (Some (ent OVAL_OPERATION_EQUALS ''/a''))
     (Some (ent OVAL_OPERATION_EQUALS ''b.txt'')) None (bhv ''-1'' ''none'' ''all'') 20
   = Some [(\<lparr>fts_path = ''/a/b.txt'', fts_pathlen = 8, fts_name = ''b.txt'', fts_namelen = 5,
              fts_info = FTS_F, fts_level = 1, fts_statp = Some 1, fts_parent_dev = Some 1\<rparr>,
            \<lparr>path = ''/a'', path_len = 2, file = Some ''b.txt'', file_len = 5\<rparr>)]
   \<and> accepted_children (probe_entobj_cmp sample_base) (Some (ent OVAL_OPERATION_EQUALS ''b.txt''))
       (root_node fs_a ''/a'')
     = [(''b.txt'', FsFile 1)]
   \<and> length [(\<lparr>fts_path = ''/a/b.txt'', fts_pathlen = 8, fts_name = ''b.txt'', fts_namelen = 5,
              fts_info = FTS_F, fts_level = 1, fts_statp = Some 1, fts_parent_dev = Some 1\<rparr>,
            \<lparr>path = ''/a'', path_len = 2, file = Some ''b.txt'', file_len = 5\<rparr>)]
       \<le> length [''/a'']"
proof -
  let ?env = "sample_env fs_a"
  let ?p = "ent OVAL_OPERATION_EQUALS ''/a''"
  let ?fn = "ent OVAL_OPERATION_EQUALS ''b.txt''"
  let ?bh = "bhv ''-1'' ''none'' ''all''"
  let ?xs = "[(\<lparr>fts_path = ''/a/b.txt'', fts_pathlen = 8, fts_name = ''b.txt'', fts_namelen = 5,
              fts_info = FTS_F, fts_level = 1, fts_statp = Some 1, fts_parent_dev = Some 1\<rparr>,
            \<lparr>path = ''/a'', path_len = 2, file = Some ''b.txt'', file_len = 5\<rparr>)]"
  have s: "oval_fts_session ?env (Some ?p) (Some ?fn) None ?bh 20 = Some ?xs"
    by code_simp
  have p: "map_option (\<lambda>h. (direction h, ofts_path_op h, ofts_sfilename h, ofts_sfilepath h,
                             ofts_path_regex h, ofts_st_path h))
             (opened_handle (oval_fts_open ?env (Some ?p) (Some ?fn) None ?bh))
           = Some (OVAL_RECURSE_DIRECTION_NONE, OVAL_OPERATION_EQUALS, Some ?fn, None, None, [''/a''])"
    by code_simp
  have a: "accepted_children (probe_entobj_cmp sample_base) (Some ?fn) (root_node fs_a ''/a'')
             = [(''b.txt'', FsFile 1)]"
    by code_simp
  from session_walk[OF s] obtain ofts live where
    o: "oval_fts_open ?env (Some ?p) (Some ?fn) None ?bh = Opened ofts live"
    and w: "oval_fts_walk ?env 20 ofts = Some ?xs" by blast
  from p o have f: "direction ofts = OVAL_RECURSE_DIRECTION_NONE"
    "ofts_path_op ofts = OVAL_OPERATION_EQUALS" "ofts_sfilename ofts = Some ?fn"
    "ofts_sfilepath ofts = None" "ofts_path_regex ofts = None" "ofts_st_path ofts = [''/a'']"
    by simp_all
  from open_driver[OF o] f(6) obtain opts where
    d: "tree_fts_open fs_a [''/a''] opts = Some (ofts_fts ofts)" by auto
  from w have w': "oval_fts_walk (tree_env fs_a sample_base) 20 ofts = Some ?xs" by simp
  have "length ?xs \<le> length [''/a'']"
    by (rule walk_none_one_per_root[OF d f(1,2,4,5) _ w']) (simp add: f(3) a)
  with s a show ?thesis by simp
qed

text \<open>
  Claim C6 as it was stated fails. The path entity is \<open>/a\<close> with \<open>EQUALS\<close>, the
  direction \<open>none\<close>, and the filename entity accepts every name but \<open>zz\<close>: the one
  starting root \<open>/a\<close> gives two entries. With a filename entity the root is not
  skipped (line 496), and every entry in it that is not a directory and whose name the
  filename entity accepts is emitted.
\<close>

theorem none_equals_yields_two:
  "oval_fts_session (sample_env fs_two) (Some (ent OVAL_OPERATION_EQUALS ''/a''))
     (Some (ent OVAL_OPERATION_NOT_EQUAL ''zz'')) None (bhv ''-1'' ''none'' ''all'') 20
   = Some [(\<lparr>fts_path = ''/a/b.txt'', fts_pathlen = 8, fts_name = ''b.txt'', fts_namelen = 5,
              fts_info = FTS_F, fts_level = 1, fts_statp = Some 1, fts_parent_dev = Some 1\<rparr>,
            \<lparr>path = ''/a'', path_len = 2, file = Some ''b.txt'', file_len = 5\<rparr>),
           (\<lparr>fts_path = ''/a/c.txt'', fts_pathlen = 8, fts_name = ''c.txt'', fts_namelen = 5,
              fts_info = FTS_F, fts_level = 1, fts_statp = Some 1, fts_parent_dev = Some 1\<rparr>,
            \<lparr>path = ''/a'', path_len = 2, file = Some ''c.txt'', file_len = 5\<rparr>)]
   \<and> map_option (\<lambda>h. (direction h, ofts_path_op h, ofts_st_path h))
       (opened_handle (oval_fts_open (sample_env fs_two) (Some (ent OVAL_OPERATION_EQUALS ''/a''))
          (Some (ent OVAL_OPERATION_NOT_EQUAL ''zz'')) None (bhv ''-1'' ''none'' ''all'')))
     = Some (OVAL_RECURSE_DIRECTION_NONE, OVAL_OPERATION_EQUALS, [''/a''])
   \<and> accepted_children (probe_entobj_cmp sample_base)
       (Some (ent OVAL_OPERATION_NOT_EQUAL ''zz'')) (root_node fs_two ''/a'')
     = [(''b.txt'', FsFile 1), (''c.txt'', FsFile 1)]"
  by code_simp

subsection \<open>Claim C7: the starting root\<close>

text \<open>
  Claim C7. A call of \<open>oval_fts_open\<close> that returns a handle has constructed exactly
  one starting root, and the driver has been opened on it: the string of the path
  entity (of the filepath entity when there is no path) when the operation is
  \<open>EQUALS\<close>, and \<open>/\<close> for every other operation.
\<close>

theorem open_single_root:
  assumes "oval_fts_open env p fn fp bh = Opened ofts live"
  shows "\<exists>cstr_path fts_options.
           ent_strval_of (if p \<noteq> None then p else fp) = STRVAL cstr_path
         \<and> ofts_path_op ofts = oval_fts_open_path_op p fp
         \<and> ofts_st_path ofts =
             [if ofts_path_op ofts = OVAL_OPERATION_EQUALS then cstr_path else ''/'']
         \<and> ofts_st_path_count ofts = 1
         \<and> fts_open env (ofts_st_path ofts) fts_options = Some (ofts_fts ofts)"
proof -
  from open_Opened(1)[OF assms] obtain l where
    l: "oval_fts_open_locals env p fn fp bh = Some l"
    and h: "oval_fts_open_handle env p fn fp (oval_fts_open_path_op p fp) l = Opened ofts live"
    by blast
  from open_locals_cstr[OF l] open_handle_roots[OF h] show ?thesis by auto
qed

text \<open>The theorem at work: \<open>EQUALS\<close> on the path \<open>/a\<close>, and \<open>not equal\<close> on a filepath.\<close>

theorem open_single_root_witness:
  "map_option ofts_st_path
     (opened_handle (oval_fts_open (sample_env fs_a) (Some (ent OVAL_OPERATION_EQUALS ''/a''))
        (Some (ent OVAL_OPERATION_EQUALS [])) None (bhv ''-1'' ''down'' ''all'')))
   = Some [''/a'']
   \<and> map_option ofts_st_path
       (opened_handle (oval_fts_open (sample_env fs_root) None None
          (Some (ent OVAL_OPERATION_NOT_EQUAL ''/etc'')) (bhv ''-1'' ''down'' ''all'')))
     = Some [''/'']"
proof -
  let ?bh = "bhv ''-1'' ''down'' ''all''"
  let ?p = "ent OVAL_OPERATION_EQUALS ''/a''"
  let ?nil = "ent OVAL_OPERATION_EQUALS []"
  let ?fp = "ent OVAL_OPERATION_NOT_EQUAL ''/etc''"
  have "opened_handle (oval_fts_open (sample_env fs_a) (Some ?p) (Some ?nil) None ?bh) \<noteq> None"
    by code_simp
  then obtain o1 where
    h1: "opened_handle (oval_fts_open (sample_env fs_a) (Some ?p) (Some ?nil) None ?bh) = Some o1"
    by auto
  from opened_handle_Some[OF h1] obtain l1 where
    o1: "oval_fts_open (sample_env fs_a) (Some ?p) (Some ?nil) None ?bh = Opened o1 l1" by blast
  from open_single_root[OF o1] have "ofts_st_path o1 = [''/a'']"
    by (auto simp: ent_strval_of_def ent_def oval_fts_open_path_op_def)
  with h1 have c1: "map_option ofts_st_path
     (opened_handle (oval_fts_open (sample_env fs_a) (Some ?p) (Some ?nil) None ?bh)) = Some [''/a'']"
    by simp
  have "opened_handle (oval_fts_open (sample_env fs_root) None None (Some ?fp) ?bh) \<noteq> None"
    by code_simp
  then obtain o2 where
    h2: "opened_handle (oval_fts_open (sample_env fs_root) None None (Some ?fp) ?bh) = Some o2"
    by auto
  from opened_handle_Some[OF h2] obtain l2 where
    o2: "oval_fts_open (sample_env fs_root) None None (Some ?fp) ?bh = Opened o2 l2" by blast
  from open_single_root[OF o2] have "ofts_st_path o2 = [''/'']"
    by (auto simp: ent_strval_of_def ent_def oval_fts_open_path_op_def)
  with h2 have c2: "map_option ofts_st_path
     (opened_handle (oval_fts_open (sample_env fs_root) None None (Some ?fp) ?bh)) = Some [''/'']"
    by simp
  from c1 c2 show ?thesis by blast
qed

subsection \<open>Claim C8: the pruning regex\<close>

text \<open>
  What the code decides, for every regex engine. When \<open>oval_fts_open\<close> returns a handle
  for the operation \<open>PATTERN_MATCH\<close>, the pattern has been compiled, and the handle keeps
  the compiled regex (with its study data) if and only if the value reported as
  \<open>PCRE_INFO_FIRSTBYTE\<close> is \<open>/\<close> (47) or \<open>-2\<close>, and the probe with partial matching on
  \<open>/f0o/bar/baz\<close> is not rejected with \<open>PCRE_ERROR_BADPARTIAL\<close>.
\<close>

lemma open_regex_decision:
  assumes "oval_fts_open env p fn fp bh = Opened ofts live"
    and "ofts_path_op ofts = OVAL_OPERATION_PATTERN_MATCH"
  shows "\<exists>cstr_path regex.
           ent_strval_of (if p \<noteq> None then p else fp) = STRVAL cstr_path
         \<and> pcre_compile env cstr_path = Some regex
         \<and> (if (pcre_firstbyte env regex (pcre_study env regex) = 47
                 \<or> pcre_firstbyte env regex (pcre_study env regex) = - 2)
               \<and> pcre_exec env regex (pcre_study env regex) ''/f0o/bar/baz'' \<noteq> PCRE_ERROR_BADPARTIAL
             then ofts_path_regex ofts = Some regex
                  \<and> ofts_path_regex_extra ofts = pcre_study env regex
                  \<and> RES_regex \<in> set live
             else ofts_path_regex ofts = None \<and> ofts_path_regex_extra ofts = None
                  \<and> RES_regex \<notin> set live \<and> RES_regex_extra \<notin> set live)"
proof -
  from open_Opened(1)[OF assms(1)] obtain l where
    l: "oval_fts_open_locals env p fn fp bh = Some l"
    and h: "oval_fts_open_handle env p fn fp (oval_fts_open_path_op p fp) l = Opened ofts live"
    by blast
  from open_handle_roots(1)[OF h] assms(2)
  have op: "oval_fts_open_path_op p fp = OVAL_OPERATION_PATTERN_MATCH" by simp
  from open_handle_mid[OF h] op obtain ofts1 ofts2 live2 where
    re: "oval_fts_open_regex env (l_cstr_path l) ofts1 [RES_fts, RES_ofts, RES_paths0, RES_paths]
           = Some (ofts2, live2)"
    and fin: "oval_fts_open_finish env p fn fp l ofts2 live2 = Opened ofts live"
    by auto
  from open_regex_decides[OF re] obtain regex where
    c: "pcre_compile env (l_cstr_path l) = Some regex"
    and d: "if (pcre_firstbyte env regex (pcre_study env regex) = 47
                 \<or> pcre_firstbyte env regex (pcre_study env regex) = - 2)
               \<and> pcre_exec env regex (pcre_study env regex) ''/f0o/bar/baz'' \<noteq> PCRE_ERROR_BADPARTIAL
            then ofts_path_regex ofts2 = Some regex
                 \<and> ofts_path_regex_extra ofts2 = pcre_study env regex
                 \<and> live2 = (if pcre_study env regex \<noteq> None then [RES_regex_extra] else [])
                             @ RES_regex # [RES_fts, RES_ofts, RES_paths0, RES_paths]
            else ofts_path_regex ofts2 = None \<and> ofts_path_regex_extra ofts2 = None
                 \<and> live2 = removeAll RES_regex_extra (removeAll RES_regex
                              [RES_fts, RES_ofts, RES_paths0, RES_paths])"
    by blast
  note t = open_finish_regex[OF fin]
  have "if (pcre_firstbyte env regex (pcre_study env regex) = 47
                 \<or> pcre_firstbyte env regex (pcre_study env regex) = - 2)
               \<and> pcre_exec env regex (pcre_study env regex) ''/f0o/bar/baz'' \<noteq> PCRE_ERROR_BADPARTIAL
             then ofts_path_regex ofts = Some regex
                  \<and> ofts_path_regex_extra ofts = pcre_study env regex
                  \<and> RES_regex \<in> set live
             else ofts_path_regex ofts = None \<and> ofts_path_regex_extra ofts = None
                  \<and> RES_regex \<notin> set live \<and> RES_regex_extra \<notin> set live"
    using d t by (auto split: if_splits)
  with open_locals_cstr[OF l] c show ?thesis by blast
qed

text \<open>
  Claim C8 asks that the regex is kept only if the first literal byte of the pattern is
  \<open>/\<close> or the pattern is anchored at its start, and the comment at lines 337 to 343
  gives that as the meaning of the value \<open>-2\<close>. PCRE reports \<open>-2\<close> also for a pattern
  that is not anchored and has no fixed first byte, and the code keeps such a pattern.
  The pattern \<open>[ab]c\<close> neither begins with \<open>/\<close> nor is anchored; the handle keeps its
  regex. The walk then prunes at the starting root \<open>/\<close>, in which the pattern has no
  match, and yields nothing, although the directory \<open>/bc\<close> exists and the path entity
  accepts it. With the pattern \<open>bc\<close>, whose first byte is \<open>b\<close>, the regex is discarded
  and \<open>/bc\<close> is yielded.
\<close>

theorem open_keeps_unanchored_regex:
  "map_option (\<lambda>h. (ofts_path_op h, ofts_path_regex h, ofts_st_path h))
     (opened_handle (oval_fts_open (sample_env fs_bc)
        (Some (ent OVAL_OPERATION_PATTERN_MATCH ''[ab]c'')) (Some (ent OVAL_OPERATION_EQUALS []))
        None (bhv ''-1'' ''down'' ''all'')))
   = Some (OVAL_OPERATION_PATTERN_MATCH, Some (Pcre ''[ab]c''), [''/''])
   \<and> pcre_firstbyte (sample_env fs_bc) (Pcre ''[ab]c'') None = - 2
   \<and> \<not> re_anchored ''[ab]c'' \<and> hd ''[ab]c'' \<noteq> CHR ''/''
   \<and> oval_fts_session (sample_env fs_bc)
       (Some (ent OVAL_OPERATION_PATTERN_MATCH ''[ab]c'')) (Some (ent OVAL_OPERATION_EQUALS []))
       None (bhv ''-1'' ''down'' ''all'') 20
     = Some []
   \<and> fs_bc ''/'' = Some (FsDir 1 [(''bc'', FsDir 1 [])])
   \<and> probe_entobj_cmp (sample_env fs_bc) (Some (ent OVAL_OPERATION_PATTERN_MATCH ''[ab]c'')) ''/bc''
     = OVAL_RESULT_TRUE
   \<and> map_option (\<lambda>h. (ofts_path_op h, ofts_path_regex h, ofts_st_path h))
       (opened_handle (oval_fts_open (sample_env fs_bc)
          (Some (ent OVAL_OPERATION_PATTERN_MATCH ''bc'')) (Some (ent OVAL_OPERATION_EQUALS []))
          None (bhv ''-1'' ''down'' ''all'')))
     = Some (OVAL_OPERATION_PATTERN_MATCH, None, [''/''])
   \<and> oval_fts_session (sample_env fs_bc)
       (Some (ent OVAL_OPERATION_PATTERN_MATCH ''bc'')) (Some (ent OVAL_OPERATION_EQUALS []))
       None (bhv ''-1'' ''down'' ''all'') 20
     = Some [(\<lparr>fts_path = ''/bc'', fts_pathlen = 3, fts_name = ''bc'', fts_namelen = 2,
                fts_info = FTS_D, fts_level = 1, fts_statp = Some 1, fts_parent_dev = Some 1\<rparr>,
              \<lparr>path = ''/bc'', path_len = 3, file = None, file_len = - 1\<rparr>)]"
  by code_simp

subsection \<open>Claim C9: failures of \<open>oval_fts_open\<close>\<close>

text \<open>
  Claim C9 asks that a failing \<open>oval_fts_open\<close> returns NULL with everything it had
  acquired released. The code does so while it reads the behaviors, and not afterwards.
  When \<open>pcre_compile\<close> rejects the pattern \<open>(\<close>, the call returns NULL while the array of
  starting paths, its string, the handle and the driver are still allocated. When
  \<open>fsdev_init\<close> fails, the compiled regex is left behind as well. When \<open>fts_open\<close>
  fails, \<open>OVAL_FTS_new\<close> returns NULL and the call does not return at all: it writes
  through the NULL handle, with the array and its string allocated.
\<close>

theorem open_failure_leaks:
  "oval_fts_open (sample_env fs_a) (Some (ent OVAL_OPERATION_PATTERN_MATCH ''(''))
     (Some (ent OVAL_OPERATION_EQUALS [])) None (bhv ''-1'' ''down'' ''all'')
   = Failed [RES_fts, RES_ofts, RES_paths0, RES_paths]
   \<and> oval_fts_open ((sample_env fs_a)\<lparr>fsdev_init := None\<rparr>)
       (Some (ent OVAL_OPERATION_PATTERN_MATCH ''/a'')) (Some (ent OVAL_OPERATION_EQUALS []))
       None (bhv ''-1'' ''down'' ''local'')
     = Failed [RES_regex, RES_fts, RES_ofts, RES_paths0, RES_paths]
   \<and> oval_fts_open sample_base (Some (ent OVAL_OPERATION_EQUALS ''/a''))
       (Some (ent OVAL_OPERATION_EQUALS [])) None (bhv ''-1'' ''down'' ''all'')
     = Crashed [RES_paths0, RES_paths]
   \<and> oval_fts_open (sample_env fs_a) (Some (ent OVAL_OPERATION_EQUALS ''/a''))
       (Some (ent OVAL_OPERATION_EQUALS [])) None (bhv ''-1'' ''sideways'' ''all'')
     = Failed []"
  by code_simp

subsection \<open>Claim C10: the filepath mode\<close>

text \<open>
  Claim C10. A handle opened in filepath mode does not depend on the behaviors: any
  other behaviors give the same handle. Its \<open>max_depth\<close>, \<open>direction\<close> and \<open>filesystem\<close>
  are \<open>-1\<close> and no device set has been created. With that direction the switch of
  \<open>oval_fts_read\<close> matches no case and leaves the driver as it is for every entry, and
  when the handle holds no pruning regex a whole turn of the loop sets no instruction
  at all: only the pruning regex can keep the driver from descending.
\<close>

theorem open_filepath_unsteered:
  assumes "oval_fts_open env None fn fp bh = Opened ofts live"
  shows "oval_fts_open env None fn fp bh' = Opened ofts live
       \<and> max_depth ofts = - 1 \<and> direction ofts = - 1 \<and> filesystem ofts = - 1
       \<and> localdevs ofts = None \<and> RES_localdevs \<notin> set live
       \<and> oval_fts_read_steer env (ofts\<lparr>ofts_fts := fts\<rparr>) e = fts
       \<and> (ofts_path_regex ofts = None \<longrightarrow>
            turn_fts (oval_fts_read_body env (ofts\<lparr>ofts_fts := fts\<rparr>) e) = fts)"
proof -
  from open_Opened(1)[OF assms] obtain l where
    h: "oval_fts_open_handle env None fn fp (oval_fts_open_path_op None fp) l = Opened ofts live"
    by blast
  from open_handle_filepath[OF h] have
    f: "max_depth ofts = - 1" "direction ofts = - 1" "filesystem ofts = - 1" "localdevs ofts = None"
    by auto
  have same: "oval_fts_open env None fn fp bh' = oval_fts_open env None fn fp bh"
    by (simp add: oval_fts_open_def open_locals_filepath[of env _ fp bh' bh])
  have st: "oval_fts_read_steer env (ofts\<lparr>ofts_fts := fts\<rparr>) e = fts" for e
    using steer_no_direction[of "ofts\<lparr>ofts_fts := fts\<rparr>" env e] f(2) by simp
  have "ofts_path_regex ofts = None \<longrightarrow>
            turn_fts (oval_fts_read_body env (ofts\<lparr>ofts_fts := fts\<rparr>) e) = fts"
    using body_no_regex[of "ofts\<lparr>ofts_fts := fts\<rparr>" env e] st by simp
  with same assms f st open_filepath_no_devset[OF assms] show ?thesis by simp
qed

text \<open>
  The theorem at work: a filepath with \<open>EQUALS\<close>, opened once with behaviors and once
  with none at all.
\<close>

theorem open_filepath_unsteered_witness:
  "\<exists>ofts live.
     oval_fts_open (sample_env fs_a) None None (Some (ent OVAL_OPERATION_EQUALS ''/a/b.txt''))
       (bhv ''3'' ''down'' ''local'') = Opened ofts live
   \<and> oval_fts_open (sample_env fs_a) None None (Some (ent OVAL_OPERATION_EQUALS ''/a/b.txt''))
       Map.empty = Opened ofts live
   \<and> max_depth ofts = - 1 \<and> direction ofts = - 1 \<and> filesystem ofts = - 1
   \<and> localdevs ofts = None \<and> RES_localdevs \<notin> set live \<and> ofts_path_regex ofts = None
   \<and> turn_fts (oval_fts_read_body (sample_env fs_a) ofts
        \<lparr>fts_path = ''/a/c'', fts_pathlen = 4, fts_name = ''c'', fts_namelen = 1,
          fts_info = FTS_D, fts_level = 7, fts_statp = Some 2, fts_parent_dev = Some 1\<rparr>) = ofts_fts ofts"
proof -
  let ?env = "sample_env fs_a"
  let ?fp = "ent OVAL_OPERATION_EQUALS ''/a/b.txt''"
  let ?bh = "bhv ''3'' ''down'' ''local''"
  let ?e = "\<lparr>fts_path = ''/a/c'', fts_pathlen = 4, fts_name = ''c'', fts_namelen = 1,
          fts_info = FTS_D, fts_level = 7, fts_statp = Some 2, fts_parent_dev = Some 1\<rparr>"
  have p: "map_option ofts_path_regex (opened_handle (oval_fts_open ?env None None (Some ?fp) ?bh))
             = Some None"
    by code_simp
  then obtain ofts where h: "opened_handle (oval_fts_open ?env None None (Some ?fp) ?bh) = Some ofts"
    by auto
  from opened_handle_Some[OF h] obtain live where
    o: "oval_fts_open ?env None None (Some ?fp) ?bh = Opened ofts live" by blast
  from p o have r: "ofts_path_regex ofts = None" by simp
  from open_filepath_unsteered[OF o, of Map.empty "ofts_fts ofts" ?e] o r show ?thesis
    by auto
qed

end
